theory Spec2Isabelle
  imports Complex_Main
begin

section \<open>The vLLM client of graph-of-thoughts: data model\<close>

text \<open>
  The development embeds \<^verbatim>\<open>graph_of_thoughts/language_models/vllm_client.py\<close>:
  the methods \<^verbatim>\<open>query\<close>, \<^verbatim>\<open>chat\<close> and \<^verbatim>\<open>get_response_texts\<close> of the class
  \<^verbatim>\<open>vLLMClient\<close>.

  Exceptions are values. Only the distinction the code itself makes matters: the
  decorator of \<^verbatim>\<open>chat\<close> retries on \<^verbatim>\<open>OpenAIError\<close> alone, while the
  \<^verbatim>\<open>except Exception\<close> of \<^verbatim>\<open>query\<close> catches all four.
\<close>

datatype exn = OpenAIError | AssertionError | OverflowError | OtherException

text \<open>
  A \<^verbatim>\<open>ChatCompletion\<close>, reduced to what the client reads: the choices, each with the
  text \<^verbatim>\<open>choice.message.content\<close>, and the optional usage record.
\<close>

record choice =
  content :: string

record completion_usage =
  usage_prompt_tokens :: int
  usage_completion_tokens :: int

record chat_completion =
  choices :: "choice list"
  usage :: "completion_usage option"

text \<open>
  The value \<^verbatim>\<open>query\<close> returns: one \<^verbatim>\<open>ChatCompletion\<close> when a single response was
  asked for, a Python list of them otherwise.
\<close>

datatype query_response = Single chat_completion | Multi "chat_completion list"

text \<open>
  Everything outside the client object. \<open>create w k messages n\<close> is what the
  \<open>k\<close>-th call (counting from 0) of \<^verbatim>\<open>self.client.chat.completions.create\<close> does
  when it is sent \<open>messages\<close> and asked for \<open>n\<close> choices: it raises or it returns a
  completion. The model, temperature, token limit and stop sequence are fixed at
  construction and are part of the function. \<open>max_time_exceeded w k\<close> says whether
  the retry decorator finds its time limit used up at the try that makes call \<open>k\<close>.
  The remaining fields are the interpreter's float arithmetic, over a type \<open>'f\<close> of
  floats that is left open: \<open>py_float\<close> is \<^verbatim>\<open>float(i)\<close>, which raises
  \<^verbatim>\<open>OverflowError\<close> (here \<open>None\<close>) on an integer too large for a float, and
  \<open>thousand\<close> is the literal \<^verbatim>\<open>1000.0\<close>.
\<close>

record 'f world =
  create :: "nat \<Rightarrow> (string \<times> string) list \<Rightarrow> int \<Rightarrow> exn + chat_completion"
  max_time_exceeded :: "nat \<Rightarrow> bool"
  py_float :: "int \<Rightarrow> 'f option"
  fmul :: "'f \<Rightarrow> 'f \<Rightarrow> 'f"
  fadd :: "'f \<Rightarrow> 'f \<Rightarrow> 'f"
  fdiv :: "'f \<Rightarrow> 'f \<Rightarrow> 'f"
  thousand :: "'f"

text \<open>
  The fields of the client object that the three methods read or write. The cache
  flag, the cache and the three counters are set up by the base class
  \<^verbatim>\<open>AbstractLanguageModel\<close>; the methods below are modelled from any values of
  them. \<open>transport_calls\<close> is not a field of the Python object: it counts the
  requests sent to the server so far, so that theorems can speak about them.
\<close>

record 'f client =
  cache :: bool
  response_cache :: "string \<rightharpoonup> query_response"
  prompt_tokens :: int
  completion_tokens :: int
  cost :: "'f"
  prompt_token_cost :: "'f"
  response_token_cost :: "'f"
  transport_calls :: nat

section \<open>The transport call: chat\<close>

text \<open>
  The body of \<^verbatim>\<open>chat\<close>, without its decorator: one request to the server, then
  the usage accounting when the response carries usage data. An assignment made before
  an exception stays made, so the client is returned in both cases.
\<close>

definition chat_target ::
  "'f world \<Rightarrow> (string \<times> string) list \<Rightarrow> int \<Rightarrow> 'f client \<Rightarrow> (exn + chat_completion) \<times> 'f client"
where
  "chat_target w messages n self =
     (let sent = self\<lparr>transport_calls := transport_calls self + 1\<rparr> in
      case create w (transport_calls self) messages n of
        Inl e \<Rightarrow> (Inl e, sent)
      | Inr response \<Rightarrow>
          (case usage response of
             None \<Rightarrow> (Inr response, sent)
           | Some u \<Rightarrow>
               (let counted = sent\<lparr>prompt_tokens := prompt_tokens sent + usage_prompt_tokens u,
                                   completion_tokens :=
                                     completion_tokens sent + usage_completion_tokens u\<rparr> in
                case py_float w (prompt_tokens counted) of
                  None \<Rightarrow> (Inl OverflowError, counted)
                | Some p \<Rightarrow>
                    (case py_float w (completion_tokens counted) of
                       None \<Rightarrow> (Inl OverflowError, counted)
                     | Some cpl \<Rightarrow>
                         (let prompt_tokens_k = fdiv w p (thousand w);
                              completion_tokens_k = fdiv w cpl (thousand w) in
                          (Inr response,
                           counted\<lparr>cost :=
                             fadd w (fmul w (prompt_token_cost counted) prompt_tokens_k)
                                    (fmul w (response_token_cost counted) completion_tokens_k)\<rparr>))))))"

text \<open>
  The decorator \<^verbatim>\<open>@backoff.on_exception(backoff.expo, OpenAIError, max_time=10, max_tries=6)\<close>
  of the \<^verbatim>\<open>backoff\<close> library: the body is tried again after an \<^verbatim>\<open>OpenAIError\<close>
  until the tries are used up or the time limit is exceeded, and then the error is
  raised again; any other exception leaves at once. The waiting between tries changes
  no state. The second argument is the number of tries still allowed after this one.
\<close>

definition max_tries :: nat where
  "max_tries = 6"

primrec on_exception ::
  "'f world \<Rightarrow> nat \<Rightarrow> (string \<times> string) list \<Rightarrow> int \<Rightarrow> 'f client \<Rightarrow> (exn + chat_completion) \<times> 'f client"
where
  "on_exception w 0 messages n self = chat_target w messages n self"
| "on_exception w (Suc retries) messages n self =
     (let (ret, self') = chat_target w messages n self in
      if ret = Inl OpenAIError then
        (if max_time_exceeded w (transport_calls self) then (ret, self')
         else on_exception w retries messages n self')
      else (ret, self'))"

definition chat ::
  "'f world \<Rightarrow> (string \<times> string) list \<Rightarrow> int \<Rightarrow> 'f client \<Rightarrow> (exn + chat_completion) \<times> 'f client"
where
  "chat w messages n self = on_exception w (max_tries - 1) messages n self"

section \<open>The request: query\<close>

text \<open>
  The local variables of the \<^verbatim>\<open>else\<close> branch of \<^verbatim>\<open>query\<close>. Python's integers are
  unbounded, hence \<open>int\<close>.
\<close>

record locals =
  response :: "chat_completion list"
  num_responses :: int
  next_try :: int
  total_num_attempts :: int

definition user_message :: "string \<Rightarrow> (string \<times> string) list" where
  "user_message qry = [(''user'', qry)]"

text \<open>The loop condition \<^verbatim>\<open>num_responses > 0 and total_num_attempts > 0\<close>.\<close>

definition loop_cond :: "locals \<times> 'f client \<Rightarrow> bool" where
  "loop_cond s = (num_responses (fst s) > 0 \<and> total_num_attempts (fst s) > 0)"

text \<open>
  The first two statements of the \<^verbatim>\<open>try\<close> block: the assertion and the call of
  \<^verbatim>\<open>chat\<close>. The outcome \<open>Inl\<close> is the exception that enters the \<^verbatim>\<open>except\<close> branch;
  a failed assertion raises \<^verbatim>\<open>AssertionError\<close> and no request is sent.
\<close>

definition attempt ::
  "'f world \<Rightarrow> string \<Rightarrow> locals \<times> 'f client \<Rightarrow> (exn + chat_completion) \<times> 'f client"
where
  "attempt w qry s =
     (if next_try (fst s) > 0 then chat w (user_message qry) (next_try (fst s)) (snd s)
      else (Inl AssertionError, snd s))"

text \<open>
  One iteration of the loop. The warning that is logged and the sleep of one to three
  seconds change neither the locals nor the client. \<open>div\<close> on \<open>int\<close> rounds
  towards minus infinity, as Python's \<^verbatim>\<open>//\<close> does.
\<close>

definition loop_body :: "'f world \<Rightarrow> string \<Rightarrow> locals \<times> 'f client \<Rightarrow> locals \<times> 'f client" where
  "loop_body w qry s =
     (let l = fst s in
      case attempt w qry s of
        (Inr res, self') \<Rightarrow>
          (l\<lparr>response := response l @ [res],
             num_responses := num_responses l - next_try l,
             next_try := min (num_responses l - next_try l) (next_try l)\<rparr>, self')
      | (Inl e, self') \<Rightarrow>
          (l\<lparr>next_try := (next_try l + 1) div 2,
             total_num_attempts := total_num_attempts l - 1\<rparr>, self'))"

definition loop_measure :: "locals \<times> 'f client \<Rightarrow> nat" where
  "loop_measure s = nat (num_responses (fst s)) + nat (total_num_attempts (fst s))"

lemma loop_body_decreases:
  "loop_cond s \<Longrightarrow> loop_measure (loop_body w qry s) < loop_measure s"
  by (auto simp: loop_cond_def loop_measure_def loop_body_def attempt_def Let_def
           split: prod.splits sum.splits if_splits)

function query_loop :: "'f world \<Rightarrow> string \<Rightarrow> locals \<times> 'f client \<Rightarrow> locals \<times> 'f client" where
  "query_loop w qry s = (if loop_cond s then query_loop w qry (loop_body w qry s) else s)"
  by pat_completeness auto
termination
  by (relation "measure (\<lambda>(w, qry, s). loop_measure s)") (auto simp: loop_body_decreases)

declare query_loop.simps [simp del]

definition init_locals :: "int \<Rightarrow> locals" where
  "init_locals num = \<lparr>response = [], num_responses = num, next_try = num, total_num_attempts = num\<rparr>"

text \<open>
  \<^verbatim>\<open>query\<close>: the cache lookup, the single call or the loop, and the cache store. An
  exception that leaves \<^verbatim>\<open>chat\<close> on the single path leaves \<^verbatim>\<open>query\<close> too, before
  the cache store is reached.
\<close>

definition query ::
  "'f world \<Rightarrow> string \<Rightarrow> int \<Rightarrow> 'f client \<Rightarrow> (exn + query_response) \<times> 'f client"
where
  "query w qry num self =
     (case (if cache self then response_cache self qry else None) of
        Some cached \<Rightarrow> (Inr cached, self)
      | None \<Rightarrow>
          (let (ret, self') =
                 (if num = 1 then
                    (case chat w (user_message qry) num self of
                       (Inl e, self') \<Rightarrow> (Inl e, self')
                     | (Inr res, self') \<Rightarrow> (Inr (Single res), self'))
                  else
                    (let (l, self') = query_loop w qry (init_locals num, self) in
                     (Inr (Multi (response l)), self')))
           in case ret of
                Inl e \<Rightarrow> (Inl e, self')
              | Inr resp \<Rightarrow>
                  (Inr resp,
                   if cache self' then self'\<lparr>response_cache := (response_cache self')(qry \<mapsto> resp)\<rparr>
                   else self')))"

section \<open>Extracting the texts: get_response_texts\<close>

fun get_response_texts :: "query_response \<Rightarrow> string list" where
  "get_response_texts (Multi query_response) =
     concat (map (\<lambda>response. map content (choices response)) query_response)"
| "get_response_texts (Single query_response) = map content (choices query_response)"

section \<open>Notions for stating the properties\<close>

subsection \<open>The run of the loop\<close>

text \<open>
  The states the loop of \<^verbatim>\<open>query\<close> goes through, from the given one: the locals and
  the client at the start of each iteration, then the state in which the loop ends.
\<close>

function loop_states :: "'f world \<Rightarrow> string \<Rightarrow> locals \<times> 'f client \<Rightarrow> (locals \<times> 'f client) list" where
  "loop_states w qry s = (if loop_cond s then s # loop_states w qry (loop_body w qry s) else [s])"
  by pat_completeness auto
termination
  by (relation "measure (\<lambda>(w, qry, s). loop_measure s)") (auto simp: loop_body_decreases)

declare loop_states.simps [simp del]

text \<open>Whether the attempt made from a state raises.\<close>

definition failed :: "'f world \<Rightarrow> string \<Rightarrow> locals \<times> 'f client \<Rightarrow> bool" where
  "failed w qry s = isl (fst (attempt w qry s))"

text \<open>What holds of the locals throughout a run for \<open>count\<close> responses.\<close>

definition loop_inv :: "int \<Rightarrow> locals \<times> 'f client \<Rightarrow> bool" where
  "loop_inv count s =
     (next_try (fst s) \<le> num_responses (fst s) \<and>
      (0 < num_responses (fst s) \<longrightarrow> 0 < next_try (fst s)) \<and>
      0 \<le> num_responses (fst s) \<and> num_responses (fst s) \<le> count \<and>
      0 \<le> total_num_attempts (fst s) \<and> total_num_attempts (fst s) \<le> count)"

subsection \<open>Choices, reported usage and documented cost\<close>

text \<open>The number of choices a result of \<^verbatim>\<open>query\<close> holds, over all its responses.\<close>

fun num_choices :: "query_response \<Rightarrow> nat" where
  "num_choices (Single r) = length (choices r)"
| "num_choices (Multi rs) = sum_list (map (\<lambda>r. length (choices r)) rs)"

text \<open>What a response reports as used; nothing when it carries no usage data.\<close>

definition reported_prompt_tokens :: "chat_completion \<Rightarrow> int" where
  "reported_prompt_tokens r = (case usage r of None \<Rightarrow> 0 | Some u \<Rightarrow> usage_prompt_tokens u)"

definition reported_completion_tokens :: "chat_completion \<Rightarrow> int" where
  "reported_completion_tokens r = (case usage r of None \<Rightarrow> 0 | Some u \<Rightarrow> usage_completion_tokens u)"

text \<open>
  The documented cost: the prompt price times the prompt tokens over 1000 plus the
  response price times the completion tokens over 1000, in the interpreter's float
  arithmetic. It is undefined where a counter is too large for a float.
\<close>

definition documented_cost :: "'f world \<Rightarrow> 'f client \<Rightarrow> 'f option" where
  "documented_cost w self =
     (case (py_float w (prompt_tokens self), py_float w (completion_tokens self)) of
        (Some p, Some cpl) \<Rightarrow>
          Some (fadd w (fmul w (prompt_token_cost self) (fdiv w p (thousand w)))
                       (fmul w (response_token_cost self) (fdiv w cpl (thousand w))))
      | _ \<Rightarrow> None)"

text \<open>
  A caller that issues one call of \<^verbatim>\<open>chat\<close> after the other and stops at the first
  exception. It is not part of the client: it gives the theorems a sequence of calls to
  speak about.
\<close>

fun chat_all ::
  "'f world \<Rightarrow> ((string \<times> string) list \<times> int) list \<Rightarrow> 'f client \<Rightarrow> (exn + chat_completion list) \<times> 'f client"
where
  "chat_all w [] self = (Inr [], self)"
| "chat_all w ((messages, n) # reqs) self =
     (case chat w messages n self of
        (Inl e, self') \<Rightarrow> (Inl e, self')
      | (Inr r, self') \<Rightarrow>
          (case chat_all w reqs self' of
             (Inl e, self'') \<Rightarrow> (Inl e, self'')
           | (Inr rs, self'') \<Rightarrow> (Inr (r # rs), self'')))"

subsection \<open>Two transports and a client for the scenarios\<close>

text \<open>
  A server that refuses every request for more than two choices, raising \<open>e\<close>, and
  answers every other request with as many choices as were asked for and a usage
  record. Floats are read as real numbers here, and \<open>t\<close> is the clock of the retry
  decorator.
\<close>

definition stub_completion :: "int \<Rightarrow> chat_completion" where
  "stub_completion n =
     \<lparr>choices = replicate (nat n) \<lparr>content = ''[1, 2, 3]''\<rparr>,
      usage = Some \<lparr>usage_prompt_tokens = 12, usage_completion_tokens = 4 * n\<rparr>\<rparr>"

definition stub_world :: "exn \<Rightarrow> (nat \<Rightarrow> bool) \<Rightarrow> real world" where
  "stub_world e t =
     \<lparr>create = (\<lambda>k messages n. if n > 2 then Inl e else Inr (stub_completion n)),
      max_time_exceeded = t,
      py_float = (\<lambda>i. Some (real_of_int i)),
      fmul = (*), fadd = (+), fdiv = (/), thousand = 1000\<rparr>"

text \<open>A server that refuses every request.\<close>

definition failing_world :: "real world" where
  "failing_world =
     \<lparr>create = (\<lambda>k messages n. Inl OpenAIError),
      max_time_exceeded = (\<lambda>k. False),
      py_float = (\<lambda>i. Some (real_of_int i)),
      fmul = (*), fadd = (+), fdiv = (/), thousand = 1000\<rparr>"

text \<open>
  A client that has made no call yet: an empty cache, switched on or off, counters and
  cost at zero, and token prices 2 and 3.
\<close>

definition new_client :: "bool \<Rightarrow> real client" where
  "new_client c =
     \<lparr>cache = c, response_cache = Map.empty, prompt_tokens = 0, completion_tokens = 0,
      cost = 0, prompt_token_cost = 2, response_token_cost = 3, transport_calls = 0\<rparr>"

text \<open>
  The locals at the successive states of the run for five responses against the first
  of the two servers: nothing collected and 5 wanted with batch sizes 5, 3 and 2, then
  one response more at each state.
\<close>

definition stub_locals :: "locals list" where
  "stub_locals =
     [\<lparr>response = [], num_responses = 5, next_try = 5, total_num_attempts = 5\<rparr>,
      \<lparr>response = [], num_responses = 5, next_try = 3, total_num_attempts = 4\<rparr>,
      \<lparr>response = [], num_responses = 5, next_try = 2, total_num_attempts = 3\<rparr>,
      \<lparr>response = [stub_completion 2], num_responses = 3, next_try = 2, total_num_attempts = 3\<rparr>,
      \<lparr>response = [stub_completion 2, stub_completion 2],
        num_responses = 1, next_try = 1, total_num_attempts = 3\<rparr>,
      \<lparr>response = [stub_completion 2, stub_completion 2, stub_completion 1],
        num_responses = 0, next_try = 0, total_num_attempts = 3\<rparr>]"

section \<open>Properties of get_response_texts\<close>

lemma nth_concat_offset:
  "i < length xss \<Longrightarrow> j < length (xss ! i) \<Longrightarrow>
   concat xss ! (sum_list (map length (take i xss)) + j) = xss ! i ! j"
proof (induction xss arbitrary: i)
  case Nil
  then show ?case by simp
next
  case (Cons xs xss)
  show ?case
  proof (cases i)
    case 0
    with Cons.prems show ?thesis by (simp add: nth_append)
  next
    case (Suc k)
    with Cons.prems have "concat xss ! (sum_list (map length (take k xss)) + j) = xss ! k ! j"
      by (intro Cons.IH) simp_all
    with Suc show ?thesis by (simp add: nth_append add.assoc)
  qed
qed

text \<open>
  Claim C8. For a single response and for a list of responses alike,
  \<^verbatim>\<open>get_response_texts\<close> returns one text per choice, as many texts as the input has
  choices in all, in the order of the responses and, within a response, of its choices:
  choice \<open>j\<close> of response \<open>i\<close> stands at position \<open>j\<close> plus the number of choices of
  the responses before \<open>i\<close>.
\<close>

theorem get_response_texts_flat:
  "length (get_response_texts qr) = num_choices qr \<and>
   (\<forall>r j. qr = Single r \<longrightarrow> j < length (choices r) \<longrightarrow>
      get_response_texts qr ! j = content (choices r ! j)) \<and>
   (\<forall>rs i j. qr = Multi rs \<longrightarrow> i < length rs \<longrightarrow> j < length (choices (rs ! i)) \<longrightarrow>
      get_response_texts qr ! (sum_list (map (\<lambda>r. length (choices r)) (take i rs)) + j)
        = content (choices (rs ! i) ! j))"
proof (cases qr)
  case (Single r)
  then show ?thesis by simp
next
  case (Multi rs)
  have len: "length (get_response_texts (Multi rs)) = num_choices (Multi rs)"
    by (simp add: length_concat comp_def)
  have nth: "get_response_texts (Multi rs) ! (sum_list (map (\<lambda>r. length (choices r)) (take i rs)) + j)
        = content (choices (rs ! i) ! j)"
    if "i < length rs" "j < length (choices (rs ! i))" for i j
  proof -
    let ?xss = "map (\<lambda>response. map content (choices response)) rs"
    have "concat ?xss ! (sum_list (map length (take i ?xss)) + j) = ?xss ! i ! j"
      using that by (intro nth_concat_offset) simp_all
    with that show ?thesis by (simp add: take_map comp_def)
  qed
  from Multi len nth show ?thesis by simp
qed

theorem get_response_texts_flat_witness:
  "get_response_texts (Multi [\<lparr>choices = [\<lparr>content = ''a''\<rparr>, \<lparr>content = ''b''\<rparr>], usage = None\<rparr>,
                               \<lparr>choices = [\<lparr>content = ''c''\<rparr>], usage = None\<rparr>]) ! 2 = ''c''
   \<and> num_choices (Multi [\<lparr>choices = [\<lparr>content = ''a''\<rparr>, \<lparr>content = ''b''\<rparr>], usage = None\<rparr>,
                               \<lparr>choices = [\<lparr>content = ''c''\<rparr>], usage = None\<rparr>]) = 3
   \<and> get_response_texts (Single \<lparr>choices = [\<lparr>content = ''a''\<rparr>, \<lparr>content = ''b''\<rparr>], usage = None\<rparr>) ! 1 = ''b''"
proof -
  let ?r1 = "\<lparr>choices = [\<lparr>content = ''a''\<rparr>, \<lparr>content = ''b''\<rparr>], usage = None\<rparr>"
  let ?r2 = "\<lparr>choices = [\<lparr>content = ''c''\<rparr>], usage = None\<rparr>"
  have m: "1 < length [?r1, ?r2]" "0 < length (choices ([?r1, ?r2] ! 1))"
    by simp_all
  have s: "1 < length (choices ?r1)"
    by simp
  from get_response_texts_flat [of "Multi [?r1, ?r2]"] m
  have "get_response_texts (Multi [?r1, ?r2]) !
          (sum_list (map (\<lambda>r. length (choices r)) (take 1 [?r1, ?r2])) + 0)
        = content (choices ([?r1, ?r2] ! 1) ! 0)"
    by blast
  moreover from get_response_texts_flat [of "Single ?r1"] s
  have "get_response_texts (Single ?r1) ! 1 = content (choices ?r1 ! 1)"
    by blast
  ultimately show ?thesis by simp
qed

section \<open>Usage accounting\<close>

lemma chat_target_OpenAIError:
  "chat_target w messages n self = (Inl OpenAIError, self') \<Longrightarrow>
   self' = self\<lparr>transport_calls := transport_calls self + 1\<rparr>"
  by (auto simp: chat_target_def Let_def split: sum.splits option.splits)

lemma chat_target_frame:
  "chat_target w messages n self = (ret, self') \<Longrightarrow>
   cache self' = cache self \<and> response_cache self' = response_cache self \<and>
   prompt_token_cost self' = prompt_token_cost self \<and>
   response_token_cost self' = response_token_cost self \<and>
   transport_calls self' = transport_calls self + 1"
  by (auto simp: chat_target_def Let_def split: sum.splits option.splits)

lemma chat_target_Inr:
  "chat_target w messages n self = (Inr r, self') \<Longrightarrow>
   create w (transport_calls self) messages n = Inr r \<and>
   (case usage r of
      None \<Rightarrow> prompt_tokens self' = prompt_tokens self \<and>
              completion_tokens self' = completion_tokens self \<and> cost self' = cost self
    | Some u \<Rightarrow> prompt_tokens self' = prompt_tokens self + usage_prompt_tokens u \<and>
                completion_tokens self' = completion_tokens self + usage_completion_tokens u \<and>
                Some (cost self') = documented_cost w self')"
  by (auto simp: chat_target_def documented_cost_def Let_def split: sum.splits option.splits)

lemma on_exception_frame:
  "on_exception w retries messages n self = (ret, self') \<Longrightarrow>
   cache self' = cache self \<and> response_cache self' = response_cache self \<and>
   prompt_token_cost self' = prompt_token_cost self \<and>
   response_token_cost self' = response_token_cost self \<and>
   transport_calls self < transport_calls self'"
proof (induction retries arbitrary: self)
  case 0
  then show ?case using chat_target_frame [of w messages n self ret self'] by simp
next
  case (Suc retries)
  obtain r1 s1 where t: "chat_target w messages n self = (r1, s1)"
    by (cases "chat_target w messages n self")
  note f = chat_target_frame [OF t]
  show ?case
  proof (cases "r1 = Inl OpenAIError \<and> \<not> max_time_exceeded w (transport_calls self)")
    case True
    with Suc.prems t have "on_exception w retries messages n s1 = (ret, self')"
      by simp
    from Suc.IH [OF this] f show ?thesis by simp
  next
    case False
    with Suc.prems t have "(r1, s1) = (ret, self')"
      by (auto split: if_splits)
    with f show ?thesis by simp
  qed
qed

lemma on_exception_Inr:
  "on_exception w retries messages n self = (Inr r, self') \<Longrightarrow>
   (case usage r of
      None \<Rightarrow> prompt_tokens self' = prompt_tokens self \<and>
              completion_tokens self' = completion_tokens self \<and> cost self' = cost self
    | Some u \<Rightarrow> prompt_tokens self' = prompt_tokens self + usage_prompt_tokens u \<and>
                completion_tokens self' = completion_tokens self + usage_completion_tokens u \<and>
                Some (cost self') = documented_cost w self')"
proof (induction retries arbitrary: self)
  case 0
  then show ?case using chat_target_Inr [of w messages n self r self'] by simp
next
  case (Suc retries)
  obtain r1 s1 where t: "chat_target w messages n self = (r1, s1)"
    by (cases "chat_target w messages n self")
  show ?case
  proof (cases "r1 = Inl OpenAIError \<and> \<not> max_time_exceeded w (transport_calls self)")
    case True
    with Suc.prems t have again: "on_exception w retries messages n s1 = (Inr r, self')"
      by simp
    from True t have "chat_target w messages n self = (Inl OpenAIError, s1)"
      by simp
    then have "s1 = self\<lparr>transport_calls := transport_calls self + 1\<rparr>"
      by (rule chat_target_OpenAIError)
    with Suc.IH [OF again] show ?thesis by (auto split: option.splits)
  next
    case False
    with Suc.prems t have "chat_target w messages n self = (Inr r, self')"
      by (auto split: if_splits)
    then show ?thesis using chat_target_Inr by blast
  qed
qed

lemma chat_all_length:
  "chat_all w reqs self = (Inr rs, self') \<Longrightarrow> length rs = length reqs"
  by (induction w reqs self arbitrary: rs self' rule: chat_all.induct)
     (auto split: prod.splits sum.splits)

lemma chat_all_tokens:
  "chat_all w reqs self = (Inr rs, self') \<Longrightarrow>
   prompt_tokens self' = prompt_tokens self + sum_list (map reported_prompt_tokens rs) \<and>
   completion_tokens self' = completion_tokens self + sum_list (map reported_completion_tokens rs)"
proof (induction w reqs self arbitrary: rs self' rule: chat_all.induct)
  case (1 w self)
  then show ?case by simp
next
  case (2 w messages n reqs self)
  from "2.prems" obtain r s1 rs' where
    c: "chat w messages n self = (Inr r, s1)" and
    a: "chat_all w reqs s1 = (Inr rs', self')" and rs: "rs = r # rs'"
    by (auto split: prod.splits sum.splits)
  from c have "on_exception w (max_tries - 1) messages n self = (Inr r, s1)"
    by (simp add: chat_def)
  from on_exception_Inr [OF this]
  have "prompt_tokens s1 = prompt_tokens self + reported_prompt_tokens r \<and>
        completion_tokens s1 = completion_tokens self + reported_completion_tokens r"
    by (auto simp: reported_prompt_tokens_def reported_completion_tokens_def split: option.splits)
  moreover from "2.IH" c a
  have "prompt_tokens self' = prompt_tokens s1 + sum_list (map reported_prompt_tokens rs') \<and>
        completion_tokens self' = completion_tokens s1 + sum_list (map reported_completion_tokens rs')"
    by simp
  ultimately show ?case using rs by simp
qed

lemma documented_cost_cong:
  "prompt_tokens a = prompt_tokens b \<Longrightarrow> completion_tokens a = completion_tokens b \<Longrightarrow>
   prompt_token_cost a = prompt_token_cost b \<Longrightarrow> response_token_cost a = response_token_cost b \<Longrightarrow>
   documented_cost w a = documented_cost w b"
  by (simp add: documented_cost_def split: option.splits)

lemma chat_all_cost:
  "chat_all w reqs self = (Inr rs, self') \<Longrightarrow>
   (\<exists>r \<in> set rs. usage r \<noteq> None) \<or> Some (cost self) = documented_cost w self \<Longrightarrow>
   Some (cost self') = documented_cost w self'"
proof (induction w reqs self arbitrary: rs self' rule: chat_all.induct)
  case (1 w self)
  then show ?case by simp
next
  case (2 w messages n reqs self)
  from "2.prems"(1) obtain r s1 rs' where
    c: "chat w messages n self = (Inr r, s1)" and
    a: "chat_all w reqs s1 = (Inr rs', self')" and rs: "rs = r # rs'"
    by (auto split: prod.splits sum.splits)
  from c have o: "on_exception w (max_tries - 1) messages n self = (Inr r, s1)"
    by (simp add: chat_def)
  note acc = on_exception_Inr [OF o] and fr = on_exception_frame [OF o]
  have "(\<exists>r \<in> set rs'. usage r \<noteq> None) \<or> Some (cost s1) = documented_cost w s1"
  proof (cases "usage r")
    case None
    with acc have eqs: "prompt_tokens s1 = prompt_tokens self"
      "completion_tokens s1 = completion_tokens self" "cost s1 = cost self"
      by simp_all
    from fr have "prompt_token_cost s1 = prompt_token_cost self"
      "response_token_cost s1 = response_token_cost self"
      by simp_all
    with eqs have same: "documented_cost w s1 = documented_cost w self"
      by (intro documented_cost_cong)
    from "2.prems"(2) rs None have "(\<exists>r \<in> set rs'. usage r \<noteq> None) \<or> Some (cost self) = documented_cost w self"
      by auto
    with same eqs(3) show ?thesis by simp
  next
    case (Some u)
    with acc show ?thesis by simp
  qed
  with "2.IH" c a show ?case by simp
qed

text \<open>
  Claim C6. When a call of \<^verbatim>\<open>chat\<close> returns a response that carries usage data, the
  two token counters have grown by the reported numbers and the cost is the documented
  formula over the new counters, computed in the interpreter's float arithmetic; when
  the response carries none, the counters and the cost are as before, and the call whose
  request the server answers without usage data returns that answer. Hence after any
  sequence of calls that all return, the counters are the old ones plus the sums of the
  reported numbers, and the cost is the formula as soon as one response carried usage
  data.
\<close>

theorem chat_usage_accounting:
  "(chat w messages n self = (Inr r, self') \<longrightarrow>
      (case usage r of
         None \<Rightarrow> prompt_tokens self' = prompt_tokens self \<and>
                 completion_tokens self' = completion_tokens self \<and> cost self' = cost self
       | Some u \<Rightarrow> prompt_tokens self' = prompt_tokens self + usage_prompt_tokens u \<and>
                   completion_tokens self' = completion_tokens self + usage_completion_tokens u \<and>
                   Some (cost self') = documented_cost w self')) \<and>
   (create w (transport_calls self) messages n = Inr r \<and> usage r = None \<longrightarrow>
      chat w messages n self = (Inr r, self\<lparr>transport_calls := transport_calls self + 1\<rparr>)) \<and>
   (chat_all w reqs self = (Inr rs, self'') \<longrightarrow>
      length rs = length reqs \<and>
      prompt_tokens self'' = prompt_tokens self + sum_list (map reported_prompt_tokens rs) \<and>
      completion_tokens self'' = completion_tokens self + sum_list (map reported_completion_tokens rs) \<and>
      ((\<exists>r \<in> set rs. usage r \<noteq> None) \<longrightarrow> Some (cost self'') = documented_cost w self''))"
proof (intro conjI impI)
  assume "chat w messages n self = (Inr r, self')"
  then have "on_exception w (max_tries - 1) messages n self = (Inr r, self')"
    by (simp add: chat_def)
  then show "case usage r of
         None \<Rightarrow> prompt_tokens self' = prompt_tokens self \<and>
                 completion_tokens self' = completion_tokens self \<and> cost self' = cost self
       | Some u \<Rightarrow> prompt_tokens self' = prompt_tokens self + usage_prompt_tokens u \<and>
                   completion_tokens self' = completion_tokens self + usage_completion_tokens u \<and>
                   Some (cost self') = documented_cost w self'"
    by (rule on_exception_Inr)
next
  assume "create w (transport_calls self) messages n = Inr r \<and> usage r = None"
  then show "chat w messages n self = (Inr r, self\<lparr>transport_calls := transport_calls self + 1\<rparr>)"
    by (simp add: chat_def max_tries_def eval_nat_numeral chat_target_def)
next
  assume a: "chat_all w reqs self = (Inr rs, self'')"
  then show "length rs = length reqs" by (rule chat_all_length)
  from chat_all_tokens [OF a]
  show "prompt_tokens self'' = prompt_tokens self + sum_list (map reported_prompt_tokens rs)"
    and "completion_tokens self'' = completion_tokens self + sum_list (map reported_completion_tokens rs)"
    by simp_all
  assume "\<exists>r \<in> set rs. usage r \<noteq> None"
  then show "Some (cost self'') = documented_cost w self''"
    using chat_all_cost [OF a] by blast
qed

lemma stub_chat_two:
  "chat (stub_world OpenAIError (\<lambda>k. False)) (user_message ''sort'') 2 (new_client False) =
     (Inr (stub_completion 2),
      (new_client False)\<lparr>prompt_tokens := 12, completion_tokens := 8, cost := 6 / 125,
                          transport_calls := 1\<rparr>)"
  by (simp add: chat_def max_tries_def eval_nat_numeral chat_target_def stub_world_def
        stub_completion_def new_client_def Let_def)

lemma stub_chat_all:
  "chat_all (stub_world OpenAIError (\<lambda>k. False))
      [(user_message ''sort'', 2), (user_message ''sort'', 1)] (new_client False) =
     (Inr [stub_completion 2, stub_completion 1],
      (new_client False)\<lparr>prompt_tokens := 24, completion_tokens := 12, cost := 21 / 250,
                          transport_calls := 2\<rparr>)"
  by (simp add: chat_def max_tries_def eval_nat_numeral chat_target_def stub_world_def
        stub_completion_def new_client_def Let_def)

theorem chat_usage_accounting_witness:
  "chat (stub_world OpenAIError (\<lambda>k. False)) (user_message ''sort'') 2 (new_client False) =
     (Inr (stub_completion 2),
      (new_client False)\<lparr>prompt_tokens := 12, completion_tokens := 8, cost := 6 / 125,
                          transport_calls := 1\<rparr>) \<and>
   chat_all (stub_world OpenAIError (\<lambda>k. False))
      [(user_message ''sort'', 2), (user_message ''sort'', 1)] (new_client False) =
     (Inr [stub_completion 2, stub_completion 1],
      (new_client False)\<lparr>prompt_tokens := 24, completion_tokens := 12, cost := 21 / 250,
                          transport_calls := 2\<rparr>) \<and>
   documented_cost (stub_world OpenAIError (\<lambda>k. False))
      ((new_client False)\<lparr>prompt_tokens := 24, completion_tokens := 12, cost := 21 / 250,
                          transport_calls := 2\<rparr>) = Some (2 * (24 / 1000) + 3 * (12 / 1000)) \<and>
   sum_list (map reported_prompt_tokens [stub_completion 2, stub_completion 1]) = 24 \<and>
   sum_list (map reported_completion_tokens [stub_completion 2, stub_completion 1]) = 12 \<and>
   chat ((stub_world OpenAIError (\<lambda>k. False))
           \<lparr>create := \<lambda>k messages n. Inr \<lparr>choices = [\<lparr>content = ''[1, 2, 3]''\<rparr>], usage = None\<rparr>\<rparr>)
        (user_message ''sort'') 1 (new_client False) =
     (Inr \<lparr>choices = [\<lparr>content = ''[1, 2, 3]''\<rparr>], usage = None\<rparr>,
      (new_client False)\<lparr>transport_calls := 1\<rparr>)"
proof -
  let ?w = "stub_world OpenAIError (\<lambda>k. False)"
  let ?c2 = "(new_client False)\<lparr>prompt_tokens := 24, completion_tokens := 12, cost := 21 / 250,
                          transport_calls := 2\<rparr>"
  let ?r = "\<lparr>choices = [\<lparr>content = ''[1, 2, 3]''\<rparr>], usage = None\<rparr>"
  let ?v = "?w\<lparr>create := \<lambda>k messages n. Inr ?r\<rparr>"
  have u: "\<exists>r \<in> set [stub_completion 2, stub_completion 1]. usage r \<noteq> None"
    by (simp add: stub_completion_def)
  from chat_usage_accounting
         [of ?w "user_message ''sort''" 2 "new_client False" "stub_completion 2" _
             "[(user_message ''sort'', 2), (user_message ''sort'', 1)]"
             "[stub_completion 2, stub_completion 1]" ?c2]
       stub_chat_two stub_chat_all u
  have "Some (cost ?c2) = documented_cost ?w ?c2 \<and>
        prompt_tokens ?c2 = prompt_tokens (new_client False) +
          sum_list (map reported_prompt_tokens [stub_completion 2, stub_completion 1]) \<and>
        completion_tokens ?c2 = completion_tokens (new_client False) +
          sum_list (map reported_completion_tokens [stub_completion 2, stub_completion 1])"
    by blast
  moreover have "create ?v (transport_calls (new_client False)) (user_message ''sort'') 1 = Inr ?r \<and>
        usage ?r = None"
    by simp
  with chat_usage_accounting [of ?v "user_message ''sort''" 1 "new_client False" ?r]
  have "chat ?v (user_message ''sort'') 1 (new_client False) =
          (Inr ?r, (new_client False)\<lparr>transport_calls := transport_calls (new_client False) + 1\<rparr>)"
    by blast
  ultimately show ?thesis
    using stub_chat_two stub_chat_all by (simp add: new_client_def)
qed

section \<open>The run of the loop\<close>

lemma loop_body_success:
  "attempt w qry s = (Inr res, self') \<Longrightarrow>
   loop_body w qry s =
     ((fst s)\<lparr>response := response (fst s) @ [res],
              num_responses := num_responses (fst s) - next_try (fst s),
              next_try := min (num_responses (fst s) - next_try (fst s)) (next_try (fst s))\<rparr>,
      self')"
  by (simp add: loop_body_def Let_def)

lemma loop_body_failure:
  "attempt w qry s = (Inl e, self') \<Longrightarrow>
   loop_body w qry s =
     ((fst s)\<lparr>next_try := (next_try (fst s) + 1) div 2,
              total_num_attempts := total_num_attempts (fst s) - 1\<rparr>,
      self')"
  by (simp add: loop_body_def Let_def)

lemma attempt_Inr_positive:
  "attempt w qry s = (Inr res, self') \<Longrightarrow> 0 < next_try (fst s)"
  by (auto simp: attempt_def split: if_splits)

lemma attempt_cases:
  obtains (success) res self' where "attempt w qry s = (Inr res, self')"
  | (failure) e self' where "attempt w qry s = (Inl e, self')"
  by (cases "attempt w qry s"; cases "fst (attempt w qry s)") auto

lemma loop_inv_init: "0 \<le> count \<Longrightarrow> loop_inv count (init_locals count, self)"
  by (simp add: loop_inv_def init_locals_def)

lemma loop_inv_step:
  assumes "loop_inv count s" "loop_cond s"
  shows "loop_inv count (loop_body w qry s)"
proof (cases rule: attempt_cases [of w qry s])
  case (success res self')
  with assms show ?thesis
    by (simp add: loop_body_success loop_inv_def loop_cond_def)
next
  case (failure e self')
  with assms show ?thesis
    by (auto simp: loop_body_failure loop_inv_def loop_cond_def)
qed

lemma next_try_step_le:
  assumes "loop_inv count s" "loop_cond s"
  shows "next_try (fst (loop_body w qry s)) \<le> next_try (fst s)"
proof (cases rule: attempt_cases [of w qry s])
  case (success res self')
  then show ?thesis by (simp add: loop_body_success)
next
  case (failure e self')
  with assms show ?thesis
    by (auto simp: loop_body_failure loop_inv_def loop_cond_def)
qed

lemma loop_states_ne [simp]: "loop_states w qry s \<noteq> []"
  by (subst loop_states.simps) simp

lemma loop_states_0 [simp]: "loop_states w qry s ! 0 = s"
  by (subst loop_states.simps) simp

lemma loop_states_last: "last (loop_states w qry s) = query_loop w qry s"
proof (induction w qry s rule: loop_states.induct)
  case (1 w qry s)
  show ?case
  proof (cases "loop_cond s")
    case True
    with 1 show ?thesis
      by (subst loop_states.simps, subst query_loop.simps) simp
  next
    case False
    then show ?thesis
      by (subst loop_states.simps, subst query_loop.simps) simp
  qed
qed

lemma loop_states_step:
  "Suc i < length (loop_states w qry s) \<Longrightarrow>
   loop_cond (loop_states w qry s ! i) \<and>
   loop_states w qry s ! Suc i = loop_body w qry (loop_states w qry s ! i)"
proof (induction w qry s arbitrary: i rule: loop_states.induct)
  case (1 w qry s)
  show ?case
  proof (cases "loop_cond s")
    case True
    then have unf: "loop_states w qry s = s # loop_states w qry (loop_body w qry s)"
      by (subst loop_states.simps) simp
    show ?thesis
    proof (cases i)
      case 0
      with True unf show ?thesis by simp
    next
      case (Suc k)
      with "1.prems" unf have "Suc k < length (loop_states w qry (loop_body w qry s))"
        by simp
      from "1.IH" [OF True this] Suc unf show ?thesis by simp
    qed
  next
    case False
    then have "loop_states w qry s = [s]"
      by (subst loop_states.simps) simp
    with "1.prems" show ?thesis by simp
  qed
qed

lemma loop_states_last_cond: "\<not> loop_cond (last (loop_states w qry s))"
proof (induction w qry s rule: loop_states.induct)
  case (1 w qry s)
  show ?case
  proof (cases "loop_cond s")
    case True
    with 1 show ?thesis by (subst loop_states.simps) simp
  next
    case False
    then show ?thesis by (subst loop_states.simps) simp
  qed
qed

lemma loop_states_inv:
  "loop_inv count s \<Longrightarrow> i < length (loop_states w qry s) \<Longrightarrow>
   loop_inv count (loop_states w qry s ! i)"
proof (induction i)
  case 0
  then show ?case by simp
next
  case (Suc i)
  from Suc.prems(2) loop_states_step [of i w qry s]
  have "loop_cond (loop_states w qry s ! i)"
    and "loop_states w qry s ! Suc i = loop_body w qry (loop_states w qry s ! i)"
    by simp_all
  moreover from Suc have "loop_inv count (loop_states w qry s ! i)" by simp
  ultimately show ?case by (simp add: loop_inv_step)
qed

lemma loop_states_next_try_mono:
  assumes "loop_inv count s" "j < length (loop_states w qry s)" "i \<le> j"
  shows "next_try (fst (loop_states w qry s ! j)) \<le> next_try (fst (loop_states w qry s ! i))"
  using assms(3,2)
proof (induction j rule: dec_induct)
  case base
  then show ?case by simp
next
  case (step k)
  from step.prems loop_states_step [of k w qry s]
  have c: "loop_cond (loop_states w qry s ! k)"
    and e: "loop_states w qry s ! Suc k = loop_body w qry (loop_states w qry s ! k)"
    by simp_all
  from step.prems assms(1) have "loop_inv count (loop_states w qry s ! k)"
    by (intro loop_states_inv) simp_all
  from next_try_step_le [OF this c, of w qry] e step show ?case by simp
qed

lemma loop_states_length: "length (loop_states w qry s) \<le> Suc (loop_measure s)"
proof (induction w qry s rule: loop_states.induct)
  case (1 w qry s)
  show ?case
  proof (cases "loop_cond s")
    case True
    from "1" [OF True] loop_body_decreases [OF True, of w qry] True
    show ?thesis by (subst loop_states.simps) simp
  next
    case False
    then show ?thesis by (subst loop_states.simps) simp
  qed
qed

lemma loop_states_failures:
  "total_num_attempts (fst (last (loop_states w qry s))) =
     total_num_attempts (fst s) - int (length (filter (failed w qry) (butlast (loop_states w qry s))))"
proof (induction w qry s rule: loop_states.induct)
  case (1 w qry s)
  show ?case
  proof (cases "loop_cond s")
    case True
    then have unf: "loop_states w qry s = s # loop_states w qry (loop_body w qry s)"
      by (subst loop_states.simps) simp
    have "total_num_attempts (fst (loop_body w qry s)) =
            total_num_attempts (fst s) - (if failed w qry s then 1 else 0)"
      by (cases rule: attempt_cases [of w qry s])
         (simp_all add: loop_body_success loop_body_failure failed_def)
    with "1" [OF True] unf show ?thesis by simp
  next
    case False
    then have "loop_states w qry s = [s]"
      by (subst loop_states.simps) simp
    then show ?thesis by simp
  qed
qed

lemma on_exception_frame_eq:
  "cache (snd (on_exception w retries messages n self)) = cache self \<and>
   response_cache (snd (on_exception w retries messages n self)) = response_cache self"
  using on_exception_frame [of w retries messages n self] by (metis prod.collapse)

lemma loop_body_frame:
  "cache (snd (loop_body w qry s)) = cache (snd s) \<and>
   response_cache (snd (loop_body w qry s)) = response_cache (snd s)"
proof (cases rule: attempt_cases [of w qry s])
  case (success res self')
  then have "snd (attempt w qry s) = self'" by simp
  moreover have "cache (snd (attempt w qry s)) = cache (snd s) \<and>
        response_cache (snd (attempt w qry s)) = response_cache (snd s)"
    by (simp add: attempt_def chat_def on_exception_frame_eq)
  ultimately show ?thesis using success by (simp add: loop_body_success)
next
  case (failure e self')
  then have "snd (attempt w qry s) = self'" by simp
  moreover have "cache (snd (attempt w qry s)) = cache (snd s) \<and>
        response_cache (snd (attempt w qry s)) = response_cache (snd s)"
    by (simp add: attempt_def chat_def on_exception_frame_eq)
  ultimately show ?thesis using failure by (simp add: loop_body_failure)
qed

lemma query_loop_frame:
  "cache (snd (query_loop w qry s)) = cache (snd s) \<and>
   response_cache (snd (query_loop w qry s)) = response_cache (snd s)"
proof (induction w qry s rule: query_loop.induct)
  case (1 w qry s)
  show ?case
  proof (cases "loop_cond s")
    case True
    with 1 loop_body_frame [of w qry s] show ?thesis
      by (subst (1 2) query_loop.simps) simp
  next
    case False
    then show ?thesis by (subst (1 2) query_loop.simps) simp
  qed
qed

section \<open>Properties of the loop of query\<close>

lemma ceiling_half: "\<lceil>real_of_int n / 2\<rceil> = (n + 1) div 2"
proof -
  have "\<lceil>real_of_int n / real_of_int 2\<rceil> = - (- n div 2)"
    by (rule ceiling_divide_eq_div)
  then show ?thesis by simp
qed

lemma loop_states_cond_iff:
  assumes "i < length (loop_states w qry s)"
  shows "loop_cond (loop_states w qry s ! i) \<longleftrightarrow> Suc i < length (loop_states w qry s)"
proof
  assume c: "loop_cond (loop_states w qry s ! i)"
  show "Suc i < length (loop_states w qry s)"
  proof (rule ccontr)
    assume "\<not> Suc i < length (loop_states w qry s)"
    with assms have "i = length (loop_states w qry s) - 1"
      by arith
    then have "loop_states w qry s ! i = last (loop_states w qry s)"
      by (simp add: last_conv_nth)
    with c loop_states_last_cond [of w qry s] show False by simp
  qed
next
  assume "Suc i < length (loop_states w qry s)"
  then show "loop_cond (loop_states w qry s ! i)"
    using loop_states_step by blast
qed

lemma query_multi_miss:
  assumes "num \<noteq> 1" "cache self \<longrightarrow> response_cache self qry = None"
  shows "query w qry num self =
     (Inr (Multi (response (fst (query_loop w qry (init_locals num, self))))),
      if cache self
      then (snd (query_loop w qry (init_locals num, self)))
             \<lparr>response_cache := (response_cache self)
                (qry \<mapsto> Multi (response (fst (query_loop w qry (init_locals num, self)))))\<rparr>
      else snd (query_loop w qry (init_locals num, self)))"
  using assms query_loop_frame [of w qry "(init_locals num, self)"]
  by (auto simp: query_def Let_def split: prod.splits)

text \<open>
  Claim C1. In the run of the loop for a request of more than one response, the states
  \<open>ls ! i\<close> with \<open>Suc i < length ls\<close> are those in which an iteration starts. When
  the attempt of iteration \<open>i\<close> raises, the next batch size is the ceiling of half the
  old one and at least 1, the number of responses still wanted and the responses
  collected are unchanged, the attempt budget is one less, and the batch size has not
  grown; nor does it grow at any later state of the run, so not between two failures.
\<close>

theorem failure_halves_batch:
  fixes count :: int and w :: "'f world" and qry :: string and self :: "'f client"
  defines "ls \<equiv> loop_states w qry (init_locals count, self)"
  assumes "1 < count" and "Suc i < length ls"
    and "attempt w qry (ls ! i) = (Inl e, self')"
  shows "next_try (fst (ls ! Suc i)) = max 1 \<lceil>real_of_int (next_try (fst (ls ! i))) / 2\<rceil> \<and>
         num_responses (fst (ls ! Suc i)) = num_responses (fst (ls ! i)) \<and>
         total_num_attempts (fst (ls ! Suc i)) = total_num_attempts (fst (ls ! i)) - 1 \<and>
         response (fst (ls ! Suc i)) = response (fst (ls ! i)) \<and>
         next_try (fst (ls ! Suc i)) \<le> next_try (fst (ls ! i)) \<and>
         (\<forall>j. Suc i \<le> j \<and> j < length ls \<longrightarrow>
                next_try (fst (ls ! j)) \<le> next_try (fst (ls ! Suc i)))"
proof -
  have inv0: "loop_inv count (init_locals count, self)"
    using assms(2) by (simp add: loop_inv_init)
  from assms(3) have step: "loop_cond (ls ! i)" "ls ! Suc i = loop_body w qry (ls ! i)"
    unfolding ls_def using loop_states_step by blast+
  from inv0 assms(3) have "loop_inv count (ls ! i)"
    unfolding ls_def by (intro loop_states_inv) simp_all
  with step(1) have pos: "1 \<le> next_try (fst (ls ! i))"
    by (simp add: loop_inv_def loop_cond_def)
  from step(2) assms(4) have after: "ls ! Suc i =
     ((fst (ls ! i))\<lparr>next_try := (next_try (fst (ls ! i)) + 1) div 2,
                     total_num_attempts := total_num_attempts (fst (ls ! i)) - 1\<rparr>, self')"
    by (simp add: loop_body_failure)
  have mono: "next_try (fst (ls ! j)) \<le> next_try (fst (ls ! Suc i))"
    if "Suc i \<le> j" "j < length ls" for j
    using inv0 that unfolding ls_def by (intro loop_states_next_try_mono) simp_all
  from pos have "max 1 ((next_try (fst (ls ! i)) + 1) div 2) = (next_try (fst (ls ! i)) + 1) div 2"
    by simp
  with after pos mono show ?thesis
    by (simp add: ceiling_half)
qed

text \<open>
  Claim C2. When the attempt of iteration \<open>i\<close> returns a response, the number of
  responses still wanted falls by the batch size just requested, the next batch size is
  the smaller of that number and the old batch size, so it has not grown, the response is
  appended to those collected, and the attempt budget is unchanged.
\<close>

theorem success_shrinks_batch:
  fixes count :: int and w :: "'f world" and qry :: string and self :: "'f client"
  defines "ls \<equiv> loop_states w qry (init_locals count, self)"
  assumes "1 < count" and "Suc i < length ls"
    and "attempt w qry (ls ! i) = (Inr res, self')"
  shows "num_responses (fst (ls ! Suc i)) = num_responses (fst (ls ! i)) - next_try (fst (ls ! i)) \<and>
         next_try (fst (ls ! Suc i)) = min (num_responses (fst (ls ! Suc i))) (next_try (fst (ls ! i))) \<and>
         next_try (fst (ls ! Suc i)) \<le> next_try (fst (ls ! i)) \<and>
         response (fst (ls ! Suc i)) = response (fst (ls ! i)) @ [res] \<and>
         total_num_attempts (fst (ls ! Suc i)) = total_num_attempts (fst (ls ! i)) \<and>
         snd (ls ! Suc i) = self'"
proof -
  from assms(3) have "ls ! Suc i = loop_body w qry (ls ! i)"
    unfolding ls_def using loop_states_step by blast
  with assms(4) have "ls ! Suc i =
     ((fst (ls ! i))\<lparr>response := response (fst (ls ! i)) @ [res],
              num_responses := num_responses (fst (ls ! i)) - next_try (fst (ls ! i)),
              next_try := min (num_responses (fst (ls ! i)) - next_try (fst (ls ! i)))
                              (next_try (fst (ls ! i)))\<rparr>, self')"
    by (simp add: loop_body_success)
  then show ?thesis by simp
qed

text \<open>
  Claim C9. At the start of every iteration of the loop for a request of more than one
  response the batch size is at least 1: the assertion holds, and the attempt is the
  call of \<^verbatim>\<open>chat\<close> for that many choices.
\<close>

theorem batch_size_positive:
  fixes count :: int and w :: "'f world" and qry :: string and self :: "'f client"
  defines "ls \<equiv> loop_states w qry (init_locals count, self)"
  assumes "1 < count" and "Suc i < length ls"
  shows "1 \<le> next_try (fst (ls ! i)) \<and>
         attempt w qry (ls ! i) = chat w (user_message qry) (next_try (fst (ls ! i))) (snd (ls ! i))"
proof -
  have inv0: "loop_inv count (init_locals count, self)"
    using assms(2) by (simp add: loop_inv_init)
  from assms(3) have "loop_cond (ls ! i)"
    unfolding ls_def using loop_states_step by blast
  moreover from inv0 assms(3) have "loop_inv count (ls ! i)"
    unfolding ls_def by (intro loop_states_inv) simp_all
  ultimately have "1 \<le> next_try (fst (ls ! i))"
    by (simp add: loop_inv_def loop_cond_def)
  then show ?thesis by (simp add: attempt_def)
qed

text \<open>
  Claim C4. The loop function is total, and its result is the last state of the run.
  For a request of \<open>count > 1\<close> responses the run has at most \<open>2 * count\<close>
  iterations, the failed attempts among them are \<open>count\<close> minus the budget that is
  left, hence at most \<open>count\<close>, and a state of the run is the last one exactly when
  no response is wanted any more or the budget is 0. Unless the cache answers,
  \<^verbatim>\<open>query\<close> then returns the responses collected so far and raises nothing.
\<close>

theorem loop_terminates_within_budget:
  fixes count :: int and w :: "'f world" and qry :: string and self :: "'f client"
  defines "ls \<equiv> loop_states w qry (init_locals count, self)"
    and "final \<equiv> query_loop w qry (init_locals count, self)"
  assumes "1 < count"
  shows "last ls = final \<and>
         length ls \<le> 2 * nat count + 1 \<and>
         int (length (filter (failed w qry) (butlast ls))) = count - total_num_attempts (fst final) \<and>
         int (length (filter (failed w qry) (butlast ls))) \<le> count \<and>
         (\<forall>i. i < length ls \<longrightarrow>
            ((num_responses (fst (ls ! i)) = 0 \<or> total_num_attempts (fst (ls ! i)) = 0)
               \<longleftrightarrow> Suc i = length ls)) \<and>
         (num_responses (fst final) = 0 \<or> total_num_attempts (fst final) = 0) \<and>
         ((cache self \<longrightarrow> response_cache self qry = None) \<longrightarrow>
            fst (query w qry count self) = Inr (Multi (response (fst final))))"
proof -
  have inv0: "loop_inv count (init_locals count, self)"
    using assms(3) by (simp add: loop_inv_init)
  have l: "last ls = final"
    unfolding ls_def final_def by (rule loop_states_last)
  have len: "length ls \<le> 2 * nat count + 1"
    using loop_states_length [of w qry "(init_locals count, self)"]
    unfolding ls_def by (simp add: loop_measure_def init_locals_def)
  have inv: "loop_inv count (ls ! i)" if "i < length ls" for i
    using inv0 that unfolding ls_def by (rule loop_states_inv)
  have exit_iff: "(num_responses (fst (ls ! i)) = 0 \<or> total_num_attempts (fst (ls ! i)) = 0)
               \<longleftrightarrow> Suc i = length ls" if "i < length ls" for i
  proof -
    from that have "loop_cond (ls ! i) \<longleftrightarrow> Suc i < length ls"
      unfolding ls_def by (rule loop_states_cond_iff)
    moreover from inv [OF that]
    have "loop_cond (ls ! i) \<longleftrightarrow>
            \<not> (num_responses (fst (ls ! i)) = 0 \<or> total_num_attempts (fst (ls ! i)) = 0)"
      by (auto simp: loop_cond_def loop_inv_def)
    ultimately show ?thesis using that by auto
  qed
  have ne: "ls \<noteq> []" unfolding ls_def by simp
  then have lastnth: "last ls = ls ! (length ls - 1)"
    by (rule last_conv_nth)
  from ne exit_iff [of "length ls - 1"] lastnth l
  have fin: "num_responses (fst final) = 0 \<or> total_num_attempts (fst final) = 0"
    by simp
  from loop_states_failures [of w qry "(init_locals count, self)"] l
  have fails: "int (length (filter (failed w qry) (butlast ls))) = count - total_num_attempts (fst final)"
    unfolding ls_def by (simp add: init_locals_def)
  from ne inv [of "length ls - 1"] lastnth l have "0 \<le> total_num_attempts (fst final)"
    by (simp add: loop_inv_def)
  with fails have bound: "int (length (filter (failed w qry) (butlast ls))) \<le> count"
    by simp
  have q: "fst (query w qry count self) = Inr (Multi (response (fst final)))"
    if "cache self \<longrightarrow> response_cache self qry = None"
    using assms(3) that unfolding final_def by (simp add: query_multi_miss)
  from l len fails bound exit_iff fin q show ?thesis by blast
qed

section \<open>The run for five responses against a server with limited batch size\<close>


lemma chat_target_raises:
  "create w (transport_calls self) messages n = Inl e \<Longrightarrow>
   chat_target w messages n self = (Inl e, self\<lparr>transport_calls := transport_calls self + 1\<rparr>)"
  by (simp add: chat_target_def)

lemma on_exception_raises:
  "(\<forall>k. create w k messages n = Inl e) \<Longrightarrow> fst (on_exception w retries messages n self) = Inl e"
proof (induction retries arbitrary: self)
  case 0
  then show ?case by (simp add: chat_target_raises)
next
  case (Suc retries)
  then show ?case by (simp add: chat_target_raises)
qed

lemma chat_raises:
  "(\<forall>k. create w k messages n = Inl e) \<Longrightarrow> fst (chat w messages n self) = Inl e"
  by (simp add: chat_def on_exception_raises)

lemma stub_chat_fails:
  "2 < n \<Longrightarrow> fst (chat (stub_world e t) messages n self) = Inl e"
  by (rule chat_raises) (simp add: stub_world_def)

lemma stub_chat_returns:
  "n \<le> 2 \<Longrightarrow> fst (chat (stub_world e t) messages n self) = Inr (stub_completion n)"
  by (simp add: chat_def max_tries_def eval_nat_numeral chat_target_def stub_world_def
        stub_completion_def Let_def)

lemma stub_step_fails:
  assumes "2 < next_try l"
  shows "fst (loop_body (stub_world e t) qry (l, c)) =
           l\<lparr>next_try := (next_try l + 1) div 2, total_num_attempts := total_num_attempts l - 1\<rparr>"
    and "failed (stub_world e t) qry (l, c)"
proof -
  from assms have f: "fst (attempt (stub_world e t) qry (l, c)) = Inl e"
    by (simp add: attempt_def stub_chat_fails)
  then have "attempt (stub_world e t) qry (l, c) = (Inl e, snd (attempt (stub_world e t) qry (l, c)))"
    by (metis prod.collapse)
  from loop_body_failure [OF this]
  show "fst (loop_body (stub_world e t) qry (l, c)) =
           l\<lparr>next_try := (next_try l + 1) div 2, total_num_attempts := total_num_attempts l - 1\<rparr>"
    by simp
  from f show "failed (stub_world e t) qry (l, c)"
    by (simp add: failed_def)
qed

lemma stub_step_returns:
  assumes "0 < next_try l" "next_try l \<le> 2"
  shows "fst (loop_body (stub_world e t) qry (l, c)) =
           l\<lparr>response := response l @ [stub_completion (next_try l)],
             num_responses := num_responses l - next_try l,
             next_try := min (num_responses l - next_try l) (next_try l)\<rparr>"
    and "\<not> failed (stub_world e t) qry (l, c)"
proof -
  from assms have f: "fst (attempt (stub_world e t) qry (l, c)) = Inr (stub_completion (next_try l))"
    by (simp add: attempt_def stub_chat_returns)
  then have "attempt (stub_world e t) qry (l, c) =
               (Inr (stub_completion (next_try l)), snd (attempt (stub_world e t) qry (l, c)))"
    by (metis prod.collapse)
  from loop_body_success [OF this]
  show "fst (loop_body (stub_world e t) qry (l, c)) =
           l\<lparr>response := response l @ [stub_completion (next_try l)],
             num_responses := num_responses l - next_try l,
             next_try := min (num_responses l - next_try l) (next_try l)\<rparr>"
    by simp
  from f show "\<not> failed (stub_world e t) qry (l, c)"
    by (simp add: failed_def)
qed

lemma loop_states_cons:
  assumes "loop_cond (l, c)"
    and "fst (loop_body w qry (l, c)) = l'" and "c' = snd (loop_body w qry (l, c))"
    and "loop_states w qry (l', c') = rest"
  shows "loop_states w qry (l, c) = (l, c) # rest"
proof -
  from assms(2,3) have "loop_body w qry (l, c) = (l', c')"
    by (metis prod.collapse)
  with assms(1,4) show ?thesis
    by (subst loop_states.simps) simp
qed

lemma loop_states_stop:
  "\<not> loop_cond (l, c) \<Longrightarrow> loop_states w qry (l, c) = [(l, c)]"
  by (subst loop_states.simps) simp

lemma stub_run:
  "map fst (loop_states (stub_world e t) qry (init_locals 5, self)) = stub_locals \<and>
   map (failed (stub_world e t) qry) (butlast (loop_states (stub_world e t) qry (init_locals 5, self)))
     = [True, True, False, False, False]"
proof -
  let ?w = "stub_world e t"
  define l0 where "l0 = \<lparr>response = [], num_responses = 5, next_try = 5, total_num_attempts = (5::int)\<rparr>"
  define l1 where "l1 = \<lparr>response = [], num_responses = 5, next_try = 3, total_num_attempts = (4::int)\<rparr>"
  define l2 where "l2 = \<lparr>response = [], num_responses = 5, next_try = 2, total_num_attempts = (3::int)\<rparr>"
  define l3 where "l3 = \<lparr>response = [stub_completion 2], num_responses = 3, next_try = 2,
                         total_num_attempts = (3::int)\<rparr>"
  define l4 where "l4 = \<lparr>response = [stub_completion 2, stub_completion 2], num_responses = 1,
                         next_try = 1, total_num_attempts = (3::int)\<rparr>"
  define l5 where "l5 = \<lparr>response = [stub_completion 2, stub_completion 2, stub_completion 1],
                         num_responses = 0, next_try = 0, total_num_attempts = (3::int)\<rparr>"
  define c1 where "c1 = snd (loop_body ?w qry (l0, self))"
  define c2 where "c2 = snd (loop_body ?w qry (l1, c1))"
  define c3 where "c3 = snd (loop_body ?w qry (l2, c2))"
  define c4 where "c4 = snd (loop_body ?w qry (l3, c3))"
  define c5 where "c5 = snd (loop_body ?w qry (l4, c4))"
  have b0: "fst (loop_body ?w qry (l0, self)) = l1" and f0: "failed ?w qry (l0, self)"
    using stub_step_fails [of l0 e t qry self] by (simp_all add: l0_def l1_def)
  have b1: "fst (loop_body ?w qry (l1, c1)) = l2" and f1: "failed ?w qry (l1, c1)"
    using stub_step_fails [of l1 e t qry c1] by (simp_all add: l1_def l2_def)
  have b2: "fst (loop_body ?w qry (l2, c2)) = l3" and f2: "\<not> failed ?w qry (l2, c2)"
    using stub_step_returns [of l2 e t qry c2] by (simp_all add: l2_def l3_def)
  have b3: "fst (loop_body ?w qry (l3, c3)) = l4" and f3: "\<not> failed ?w qry (l3, c3)"
    using stub_step_returns [of l3 e t qry c3] by (simp_all add: l3_def l4_def)
  have b4: "fst (loop_body ?w qry (l4, c4)) = l5" and f4: "\<not> failed ?w qry (l4, c4)"
    using stub_step_returns [of l4 e t qry c4] by (simp_all add: l4_def l5_def)
  have s5: "loop_states ?w qry (l5, c5) = [(l5, c5)]"
    by (rule loop_states_stop) (simp add: loop_cond_def l5_def)
  have s4: "loop_states ?w qry (l4, c4) = [(l4, c4), (l5, c5)]"
    by (rule loop_states_cons [OF _ b4 c5_def s5]) (simp add: loop_cond_def l4_def)
  have s3: "loop_states ?w qry (l3, c3) = [(l3, c3), (l4, c4), (l5, c5)]"
    by (rule loop_states_cons [OF _ b3 c4_def s4]) (simp add: loop_cond_def l3_def)
  have s2: "loop_states ?w qry (l2, c2) = [(l2, c2), (l3, c3), (l4, c4), (l5, c5)]"
    by (rule loop_states_cons [OF _ b2 c3_def s3]) (simp add: loop_cond_def l2_def)
  have s1: "loop_states ?w qry (l1, c1) = [(l1, c1), (l2, c2), (l3, c3), (l4, c4), (l5, c5)]"
    by (rule loop_states_cons [OF _ b1 c2_def s2]) (simp add: loop_cond_def l1_def)
  have s0: "loop_states ?w qry (l0, self) =
              [(l0, self), (l1, c1), (l2, c2), (l3, c3), (l4, c4), (l5, c5)]"
    by (rule loop_states_cons [OF _ b0 c1_def s1]) (simp add: loop_cond_def l0_def)
  have i: "init_locals 5 = l0"
    by (simp add: init_locals_def l0_def)
  have "map fst (loop_states ?w qry (init_locals 5, self)) = stub_locals"
    unfolding i s0 by (simp add: stub_locals_def l0_def l1_def l2_def l3_def l4_def l5_def)
  moreover have "map (failed ?w qry) (butlast (loop_states ?w qry (init_locals 5, self)))
     = [True, True, False, False, False]"
    unfolding i s0 using f0 f1 f2 f3 f4 by simp
  ultimately show ?thesis by simp
qed

lemma stub_attempt_fails:
  "2 < next_try (fst s) \<Longrightarrow> fst (attempt (stub_world e t) qry s) = Inl e"
  by (simp add: attempt_def stub_chat_fails)

lemma stub_attempt_returns:
  "0 < next_try (fst s) \<Longrightarrow> next_try (fst s) \<le> 2 \<Longrightarrow>
   fst (attempt (stub_world e t) qry s) = Inr (stub_completion (next_try (fst s)))"
  by (simp add: attempt_def stub_chat_returns)

lemma stub_run_length:
  "length (loop_states (stub_world e t) qry (init_locals 5, self)) = 6"
proof -
  have "length (map fst (loop_states (stub_world e t) qry (init_locals 5, self))) = length stub_locals"
    using stub_run [of e t qry self] by simp
  then show ?thesis by (simp add: stub_locals_def)
qed

lemma stub_run_nth:
  "i < 6 \<Longrightarrow> fst (loop_states (stub_world e t) qry (init_locals 5, self) ! i) = stub_locals ! i"
proof -
  assume "i < 6"
  then have "map fst (loop_states (stub_world e t) qry (init_locals 5, self)) ! i =
        fst (loop_states (stub_world e t) qry (init_locals 5, self) ! i)"
    by (intro nth_map) (simp add: stub_run_length)
  with stub_run [of e t qry self] show ?thesis by simp
qed

lemma stub_run_final:
  "fst (query_loop (stub_world e t) qry (init_locals 5, self)) = stub_locals ! 5"
proof -
  let ?ls = "loop_states (stub_world e t) qry (init_locals 5, self)"
  have "query_loop (stub_world e t) qry (init_locals 5, self) = last ?ls"
    by (simp add: loop_states_last)
  also have "last ?ls = ?ls ! 5"
    by (simp add: last_conv_nth stub_run_length)
  finally show ?thesis by (simp add: stub_run_nth)
qed

lemma stub_locals_nth:
  "stub_locals ! 0 = \<lparr>response = [], num_responses = 5, next_try = 5, total_num_attempts = 5\<rparr>"
  "stub_locals ! 1 = \<lparr>response = [], num_responses = 5, next_try = 3, total_num_attempts = 4\<rparr>"
  "stub_locals ! 2 = \<lparr>response = [], num_responses = 5, next_try = 2, total_num_attempts = 3\<rparr>"
  "stub_locals ! 3 = \<lparr>response = [stub_completion 2], num_responses = 3, next_try = 2,
                       total_num_attempts = 3\<rparr>"
  "stub_locals ! 4 = \<lparr>response = [stub_completion 2, stub_completion 2], num_responses = 1,
                       next_try = 1, total_num_attempts = 3\<rparr>"
  "stub_locals ! 5 = \<lparr>response = [stub_completion 2, stub_completion 2, stub_completion 1],
                       num_responses = 0, next_try = 0, total_num_attempts = 3\<rparr>"
  by (simp_all add: stub_locals_def)

text \<open>
  Claim C3, as the code has it. The transport raises \<open>e\<close> on every request for more
  than two choices and returns as many choices as it was asked for otherwise; \<open>t\<close> is
  any behaviour of the retry decorator's clock. \<^verbatim>\<open>query(qry, 5)\<close> without a cache
  then goes through the batch sizes 5, 3, 2, 2, 1 with 5, 5, 5, 3, 1 responses still
  wanted, the first two attempts fail and the last three return, the attempt budget
  ends at 3, and the result holds three responses with five choices in all. The failed
  attempts are two, not three.
\<close>

theorem stub_scenario_trace:
  "map (\<lambda>s. (next_try (fst s), num_responses (fst s), total_num_attempts (fst s)))
     (loop_states (stub_world e t) qry (init_locals 5, self))
     = [(5, 5, 5), (3, 5, 4), (2, 5, 3), (2, 3, 3), (1, 1, 3), (0, 0, 3)] \<and>
   map (failed (stub_world e t) qry) (butlast (loop_states (stub_world e t) qry (init_locals 5, self)))
     = [True, True, False, False, False] \<and>
   length (filter (failed (stub_world e t) qry)
             (butlast (loop_states (stub_world e t) qry (init_locals 5, self)))) = 2 \<and>
   length (filter (\<lambda>s. \<not> failed (stub_world e t) qry s)
             (butlast (loop_states (stub_world e t) qry (init_locals 5, self)))) = 3 \<and>
   fst (query (stub_world e t) qry 5 (self\<lparr>cache := False\<rparr>))
     = Inr (Multi [stub_completion 2, stub_completion 2, stub_completion 1]) \<and>
   num_choices (Multi [stub_completion 2, stub_completion 2, stub_completion 1]) = 5 \<and>
   length (get_response_texts (Multi [stub_completion 2, stub_completion 2, stub_completion 1])) = 5"
proof -
  let ?ls = "loop_states (stub_world e t) qry (init_locals 5, self)"
  have "map (\<lambda>s. (next_try (fst s), num_responses (fst s), total_num_attempts (fst s))) ?ls
          = map (\<lambda>l. (next_try l, num_responses l, total_num_attempts l)) (map fst ?ls)"
    by (simp add: comp_def)
  also have "\<dots> = [(5, 5, 5), (3, 5, 4), (2, 5, 3), (2, 3, 3), (1, 1, 3), (0, 0, 3)]"
    using stub_run [of e t qry self] by (simp add: stub_locals_def)
  finally have trace: "map (\<lambda>s. (next_try (fst s), num_responses (fst s), total_num_attempts (fst s))) ?ls
          = [(5, 5, 5), (3, 5, 4), (2, 5, 3), (2, 3, 3), (1, 1, 3), (0, 0, 3)]" .
  have flags: "map (failed (stub_world e t) qry) (butlast ?ls) = [True, True, False, False, False]"
    using stub_run [of e t qry self] by simp
  have "length (filter (failed (stub_world e t) qry) (butlast ?ls))
          = length (filter (\<lambda>b. b) (map (failed (stub_world e t) qry) (butlast ?ls)))"
    by (simp add: filter_map comp_def)
  with flags have nf: "length (filter (failed (stub_world e t) qry) (butlast ?ls)) = 2"
    by simp
  have "length (filter (\<lambda>s. \<not> failed (stub_world e t) qry s) (butlast ?ls))
          = length (filter (\<lambda>b. \<not> b) (map (failed (stub_world e t) qry) (butlast ?ls)))"
    by (simp add: filter_map comp_def)
  with flags have ns: "length (filter (\<lambda>s. \<not> failed (stub_world e t) qry s) (butlast ?ls)) = 3"
    by simp
  have "fst (query (stub_world e t) qry 5 (self\<lparr>cache := False\<rparr>))
          = Inr (Multi (response (fst (query_loop (stub_world e t) qry
                                         (init_locals 5, self\<lparr>cache := False\<rparr>)))))"
    by (simp add: query_multi_miss)
  then have q: "fst (query (stub_world e t) qry 5 (self\<lparr>cache := False\<rparr>))
          = Inr (Multi [stub_completion 2, stub_completion 2, stub_completion 1])"
    by (simp add: stub_run_final stub_locals_nth)
  have c: "num_choices (Multi [stub_completion 2, stub_completion 2, stub_completion 1]) = 5"
    "length (get_response_texts (Multi [stub_completion 2, stub_completion 2, stub_completion 1])) = 5"
    by (simp_all add: stub_completion_def)
  from trace flags nf ns q c show ?thesis by blast
qed

text \<open>
  Claim C3 as it is written fails at this very scenario, with the transport raising
  \<^verbatim>\<open>OpenAIError\<close> and the clock never running out: the trace, the five choices and
  the three successful calls are as claimed, but the attempts that failed are not three.
\<close>

theorem stub_scenario_counterexample:
  "\<not> (map (\<lambda>s. (next_try (fst s), num_responses (fst s)))
          (loop_states (stub_world OpenAIError (\<lambda>k. False)) ''sort [3,1,2]''
             (init_locals 5, new_client False))
          = [(5, 5), (3, 5), (2, 5), (2, 3), (1, 1), (0, 0)] \<and>
        num_choices (Multi (response (fst (query_loop (stub_world OpenAIError (\<lambda>k. False))
             ''sort [3,1,2]'' (init_locals 5, new_client False))))) = 5 \<and>
        length (filter (failed (stub_world OpenAIError (\<lambda>k. False)) ''sort [3,1,2]'')
          (butlast (loop_states (stub_world OpenAIError (\<lambda>k. False)) ''sort [3,1,2]''
             (init_locals 5, new_client False)))) = 3 \<and>
        length (filter (\<lambda>s. \<not> failed (stub_world OpenAIError (\<lambda>k. False)) ''sort [3,1,2]'' s)
          (butlast (loop_states (stub_world OpenAIError (\<lambda>k. False)) ''sort [3,1,2]''
             (init_locals 5, new_client False)))) = 3)"
proof -
  let ?w = "stub_world OpenAIError (\<lambda>k. False)"
  let ?ls = "loop_states ?w ''sort [3,1,2]'' (init_locals 5, new_client False)"
  have flags: "map (failed ?w ''sort [3,1,2]'') (butlast ?ls) = [True, True, False, False, False]"
    using stub_run [of OpenAIError "\<lambda>k. False" "''sort [3,1,2]''" "new_client False"] by simp
  have "length (filter (failed ?w ''sort [3,1,2]'') (butlast ?ls))
          = length (filter (\<lambda>b. b) (map (failed ?w ''sort [3,1,2]'') (butlast ?ls)))"
    by (simp add: filter_map comp_def)
  with flags have "length (filter (failed ?w ''sort [3,1,2]'') (butlast ?ls)) = 2"
    by simp
  then show ?thesis by simp
qed

section \<open>The loop properties at the run for five responses\<close>


theorem failure_halves_batch_witness:
  "(1::int) < 5 \<and>
   Suc 0 < length (loop_states (stub_world OpenAIError (\<lambda>k. False)) ''sort [3,1,2]''
                     (init_locals 5, new_client False)) \<and>
   fst (attempt (stub_world OpenAIError (\<lambda>k. False)) ''sort [3,1,2]''
          (loop_states (stub_world OpenAIError (\<lambda>k. False)) ''sort [3,1,2]''
             (init_locals 5, new_client False) ! 0)) = Inl OpenAIError \<and>
   next_try (fst (loop_states (stub_world OpenAIError (\<lambda>k. False)) ''sort [3,1,2]''
                    (init_locals 5, new_client False) ! Suc 0)) = max 1 \<lceil>real_of_int 5 / 2\<rceil> \<and>
   max 1 \<lceil>real_of_int 5 / 2\<rceil> = 3 \<and>
   total_num_attempts (fst (loop_states (stub_world OpenAIError (\<lambda>k. False)) ''sort [3,1,2]''
                    (init_locals 5, new_client False) ! Suc 0)) = 5 - 1 \<and>
   next_try (fst (loop_states (stub_world OpenAIError (\<lambda>k. False)) ''sort [3,1,2]''
                    (init_locals 5, new_client False) ! 2))
     \<le> next_try (fst (loop_states (stub_world OpenAIError (\<lambda>k. False)) ''sort [3,1,2]''
                    (init_locals 5, new_client False) ! Suc 0))"
proof -
  let ?w = "stub_world OpenAIError (\<lambda>k. False)"
  let ?ls = "loop_states ?w ''sort [3,1,2]'' (init_locals 5, new_client False)"
  have c: "(1::int) < 5" by simp
  have len: "Suc 0 < length ?ls" by (simp add: stub_run_length)
  have f: "fst (attempt ?w ''sort [3,1,2]'' (?ls ! 0)) = Inl OpenAIError"
    by (rule stub_attempt_fails) (simp add: init_locals_def)
  then have a: "attempt ?w ''sort [3,1,2]'' (?ls ! 0) =
                  (Inl OpenAIError, snd (attempt ?w ''sort [3,1,2]'' (?ls ! 0)))"
    by (metis prod.collapse)
  have st: "next_try (fst (?ls ! 0)) = 5" "total_num_attempts (fst (?ls ! 0)) = 5"
    by (simp_all add: init_locals_def)
  have j: "Suc 0 \<le> 2 \<and> 2 < length ?ls" by (simp add: stub_run_length)
  from failure_halves_batch [OF c len a] j
  have "next_try (fst (?ls ! Suc 0)) = max 1 \<lceil>real_of_int (next_try (fst (?ls ! 0))) / 2\<rceil> \<and>
        total_num_attempts (fst (?ls ! Suc 0)) = total_num_attempts (fst (?ls ! 0)) - 1 \<and>
        next_try (fst (?ls ! 2)) \<le> next_try (fst (?ls ! Suc 0))"
    by blast
  with c len f st show ?thesis
    by (simp add: ceiling_half)
qed

theorem success_shrinks_batch_witness:
  "(1::int) < 5 \<and>
   Suc 2 < length (loop_states (stub_world OpenAIError (\<lambda>k. False)) ''sort [3,1,2]''
                     (init_locals 5, new_client False)) \<and>
   fst (attempt (stub_world OpenAIError (\<lambda>k. False)) ''sort [3,1,2]''
          (loop_states (stub_world OpenAIError (\<lambda>k. False)) ''sort [3,1,2]''
             (init_locals 5, new_client False) ! 2)) = Inr (stub_completion 2) \<and>
   num_responses (fst (loop_states (stub_world OpenAIError (\<lambda>k. False)) ''sort [3,1,2]''
                    (init_locals 5, new_client False) ! Suc 2)) = 5 - 2 \<and>
   next_try (fst (loop_states (stub_world OpenAIError (\<lambda>k. False)) ''sort [3,1,2]''
                    (init_locals 5, new_client False) ! Suc 2)) = min (5 - 2) 2 \<and>
   response (fst (loop_states (stub_world OpenAIError (\<lambda>k. False)) ''sort [3,1,2]''
                    (init_locals 5, new_client False) ! Suc 2)) = [] @ [stub_completion 2]"
proof -
  let ?w = "stub_world OpenAIError (\<lambda>k. False)"
  let ?ls = "loop_states ?w ''sort [3,1,2]'' (init_locals 5, new_client False)"
  have c: "(1::int) < 5" by simp
  have len: "Suc 2 < length ?ls" by (simp add: stub_run_length)
  have st: "fst (?ls ! 2) = \<lparr>response = [], num_responses = 5, next_try = 2, total_num_attempts = 3\<rparr>"
    by (simp add: stub_run_nth stub_locals_nth)
  have "fst (attempt ?w ''sort [3,1,2]'' (?ls ! 2)) = Inr (stub_completion (next_try (fst (?ls ! 2))))"
    by (rule stub_attempt_returns) (simp_all add: st)
  then have f: "fst (attempt ?w ''sort [3,1,2]'' (?ls ! 2)) = Inr (stub_completion 2)"
    by (simp add: st)
  then have a: "attempt ?w ''sort [3,1,2]'' (?ls ! 2) =
                  (Inr (stub_completion 2), snd (attempt ?w ''sort [3,1,2]'' (?ls ! 2)))"
    by (metis prod.collapse)
  from success_shrinks_batch [OF c len a] c len f st show ?thesis
    by simp
qed

theorem batch_size_positive_witness:
  "(1::int) < 5 \<and>
   Suc 4 < length (loop_states (stub_world OpenAIError (\<lambda>k. False)) ''sort [3,1,2]''
                     (init_locals 5, new_client False)) \<and>
   (1::int) \<le> 1 \<and>
   next_try (fst (loop_states (stub_world OpenAIError (\<lambda>k. False)) ''sort [3,1,2]''
                    (init_locals 5, new_client False) ! 4)) = 1 \<and>
   fst (attempt (stub_world OpenAIError (\<lambda>k. False)) ''sort [3,1,2]''
          (loop_states (stub_world OpenAIError (\<lambda>k. False)) ''sort [3,1,2]''
             (init_locals 5, new_client False) ! 4))
     = fst (chat (stub_world OpenAIError (\<lambda>k. False)) (user_message ''sort [3,1,2]'') 1
              (snd (loop_states (stub_world OpenAIError (\<lambda>k. False)) ''sort [3,1,2]''
                      (init_locals 5, new_client False) ! 4)))"
proof -
  let ?w = "stub_world OpenAIError (\<lambda>k. False)"
  let ?ls = "loop_states ?w ''sort [3,1,2]'' (init_locals 5, new_client False)"
  have c: "(1::int) < 5" by simp
  have len: "Suc 4 < length ?ls" by (simp add: stub_run_length)
  have st: "next_try (fst (?ls ! 4)) = 1"
    by (simp add: stub_run_nth stub_locals_nth)
  from batch_size_positive [OF c len] c len st show ?thesis
    by simp
qed

theorem loop_terminates_within_budget_witness:
  "(1::int) < 5 \<and>
   length (loop_states (stub_world OpenAIError (\<lambda>k. False)) ''sort [3,1,2]''
             (init_locals 5, new_client False)) = 6 \<and>
   (6::nat) \<le> 2 * nat 5 + 1 \<and>
   int (length (filter (failed (stub_world OpenAIError (\<lambda>k. False)) ''sort [3,1,2]'')
      (butlast (loop_states (stub_world OpenAIError (\<lambda>k. False)) ''sort [3,1,2]''
                  (init_locals 5, new_client False))))) = 5 - 3 \<and>
   num_responses (fst (loop_states (stub_world OpenAIError (\<lambda>k. False)) ''sort [3,1,2]''
                         (init_locals 5, new_client False) ! 5)) = 0 \<and>
   num_responses (fst (query_loop (stub_world OpenAIError (\<lambda>k. False)) ''sort [3,1,2]''
                         (init_locals 5, new_client False))) = 0 \<and>
   total_num_attempts (fst (query_loop (stub_world OpenAIError (\<lambda>k. False)) ''sort [3,1,2]''
                         (init_locals 5, new_client False))) = 3 \<and>
   \<not> cache (new_client False) \<and>
   fst (query (stub_world OpenAIError (\<lambda>k. False)) ''sort [3,1,2]'' 5 (new_client False))
     = Inr (Multi [stub_completion 2, stub_completion 2, stub_completion 1])"
proof -
  let ?w = "stub_world OpenAIError (\<lambda>k. False)"
  let ?ls = "loop_states ?w ''sort [3,1,2]'' (init_locals 5, new_client False)"
  let ?final = "query_loop ?w ''sort [3,1,2]'' (init_locals 5, new_client False)"
  have c: "(1::int) < 5" by simp
  have len: "length ?ls = 6" by (rule stub_run_length)
  have fin: "fst ?final = \<lparr>response = [stub_completion 2, stub_completion 2, stub_completion 1],
                       num_responses = 0, next_try = 0, total_num_attempts = 3\<rparr>"
    by (simp add: stub_run_final stub_locals_nth)
  have nc: "\<not> cache (new_client False)" by (simp add: new_client_def)
  have i: "(5::nat) < length ?ls" by (simp add: len)
  from loop_terminates_within_budget [OF c, of ?w "''sort [3,1,2]''" "new_client False"] nc i
  have "int (length (filter (failed ?w ''sort [3,1,2]'') (butlast ?ls)))
          = 5 - total_num_attempts (fst ?final) \<and>
        ((num_responses (fst (?ls ! 5)) = 0 \<or> total_num_attempts (fst (?ls ! 5)) = 0)
           \<longleftrightarrow> Suc 5 = length ?ls) \<and>
        fst (query ?w ''sort [3,1,2]'' 5 (new_client False)) = Inr (Multi (response (fst ?final)))"
    by blast
  with c len fin nc show ?thesis
    by (simp add: stub_run_nth stub_locals_nth)
qed

section \<open>Errors and the cache\<close>

lemma chat_target_isl:
  "isl (create w (transport_calls self) messages n) \<Longrightarrow> isl (fst (chat_target w messages n self))"
  by (auto simp: chat_target_def isl_def)

lemma on_exception_isl:
  "(\<forall>k. isl (create w k messages n)) \<Longrightarrow> isl (fst (on_exception w retries messages n self))"
proof (induction retries arbitrary: self)
  case 0
  then show ?case by (simp add: chat_target_isl)
next
  case (Suc retries)
  obtain r1 s1 where t: "chat_target w messages n self = (r1, s1)"
    by (cases "chat_target w messages n self")
  from Suc.prems have "isl (fst (chat_target w messages n self))"
    by (simp add: chat_target_isl)
  with t have "isl r1" by simp
  with t Suc show ?case by simp
qed

lemma attempt_isl:
  "(\<forall>k messages n. isl (create w k messages n)) \<Longrightarrow> isl (fst (attempt w qry s))"
  by (simp add: attempt_def chat_def on_exception_isl)

lemma loop_body_keeps_response:
  assumes "\<forall>k messages n. isl (create w k messages n)"
  shows "response (fst (loop_body w qry s)) = response (fst s)"
proof (cases rule: attempt_cases [of w qry s])
  case (success res self')
  with attempt_isl [OF assms, of qry s] show ?thesis by simp
next
  case (failure e self')
  then show ?thesis by (simp add: loop_body_failure)
qed

lemma query_loop_keeps_response:
  assumes "\<forall>k messages n. isl (create w k messages n)"
  shows "response (fst (query_loop w qry s)) = response (fst s)"
  using assms
proof (induction w qry s rule: query_loop.induct)
  case (1 w qry s)
  show ?case
  proof (cases "loop_cond s")
    case True
    with 1 loop_body_keeps_response [of w qry s] show ?thesis
      by (subst query_loop.simps) simp
  next
    case False
    then show ?thesis by (subst query_loop.simps) simp
  qed
qed

lemma query_single_miss:
  assumes "cache self \<longrightarrow> response_cache self qry = None"
  shows "query w qry 1 self =
     (case chat w (user_message qry) 1 self of
        (Inl e, self') \<Rightarrow> (Inl e, self')
      | (Inr res, self') \<Rightarrow>
          (Inr (Single res),
           if cache self
           then self'\<lparr>response_cache := (response_cache self)(qry \<mapsto> Single res)\<rparr>
           else self'))"
proof -
  obtain ret s1 where c: "chat w (user_message qry) 1 self = (ret, s1)"
    by (cases "chat w (user_message qry) 1 self")
  then have "on_exception w (max_tries - 1) (user_message qry) 1 self = (ret, s1)"
    by (simp add: chat_def)
  from on_exception_frame [OF this]
  have "cache s1 = cache self" "response_cache s1 = response_cache self"
    by simp_all
  with assms c show ?thesis
    by (auto simp: query_def split: sum.splits)
qed

lemma query_hit:
  "cache self \<Longrightarrow> response_cache self qry = Some r \<Longrightarrow> query w qry num self = (Inr r, self)"
  by (simp add: query_def)

lemma query_stores:
  assumes "cache self" "query w qry num self = (Inr r, self1)"
  shows "cache self1 \<and> response_cache self1 qry = Some r"
proof (cases "response_cache self qry")
  case (Some cached)
  with assms show ?thesis by (simp add: query_hit)
next
  case None
  show ?thesis
  proof (cases "num = 1")
    case True
    obtain ret s1 where c: "chat w (user_message qry) 1 self = (ret, s1)"
      by (cases "chat w (user_message qry) 1 self")
    then have "on_exception w (max_tries - 1) (user_message qry) 1 self = (ret, s1)"
      by (simp add: chat_def)
    from on_exception_frame [OF this] have "cache s1 = cache self"
      by simp
    with assms None True c show ?thesis
      by (auto simp: query_single_miss split: sum.splits)
  next
    case False
    from assms(1) query_loop_frame [of w qry "(init_locals num, self)"]
    have "cache (snd (query_loop w qry (init_locals num, self)))"
      by simp
    with assms None False show ?thesis
      by (auto simp: query_multi_miss)
  qed
qed

lemma query_miss_shape:
  assumes "cache self \<longrightarrow> response_cache self qry = None" "query w qry num self = (Inr r, self1)"
  shows "(\<exists>res. r = Single res) \<longleftrightarrow> num = 1"
proof (cases "num = 1")
  case True
  with assms show ?thesis
    by (auto simp: query_single_miss split: prod.splits sum.splits)
next
  case False
  with assms show ?thesis
    by (auto simp: query_multi_miss)
qed

text \<open>
  Claim C5. A request for more than one response always returns a result and never an
  exception, whatever the transport does; when the cache does not answer and the
  transport refuses every request, the result is the empty list of responses. A request
  for one response that the cache does not answer ends with the exception that leaves
  \<^verbatim>\<open>chat\<close>, after its retries, and so with the transport's error when the transport
  refuses every request.
\<close>

theorem query_error_propagation:
  "(1 < count \<longrightarrow> (\<exists>r self'. query w qry count self = (Inr r, self'))) \<and>
   (1 < count \<and> (cache self \<longrightarrow> response_cache self qry = None) \<and>
      (\<forall>k messages n. isl (create w k messages n)) \<longrightarrow>
      fst (query w qry count self) = Inr (Multi [])) \<and>
   ((cache self \<longrightarrow> response_cache self qry = None) \<and>
      chat w (user_message qry) 1 self = (Inl e, self') \<longrightarrow>
      query w qry 1 self = (Inl e, self')) \<and>
   ((cache self \<longrightarrow> response_cache self qry = None) \<and>
      (\<forall>k messages n. create w k messages n = Inl e) \<longrightarrow>
      fst (query w qry 1 self) = Inl e)"
proof (intro conjI impI)
  assume c: "1 < count"
  show "\<exists>r self'. query w qry count self = (Inr r, self')"
  proof (cases "cache self \<longrightarrow> response_cache self qry = None")
    case True
    with c show ?thesis by (simp add: query_multi_miss)
  next
    case False
    then show ?thesis by (auto simp: query_hit)
  qed
next
  assume a: "1 < count \<and> (cache self \<longrightarrow> response_cache self qry = None) \<and>
      (\<forall>k messages n. isl (create w k messages n))"
  then have "response (fst (query_loop w qry (init_locals count, self))) = response (init_locals count)"
    by (simp add: query_loop_keeps_response)
  with a show "fst (query w qry count self) = Inr (Multi [])"
    by (simp add: query_multi_miss init_locals_def)
next
  assume "(cache self \<longrightarrow> response_cache self qry = None) \<and>
      chat w (user_message qry) 1 self = (Inl e, self')"
  then show "query w qry 1 self = (Inl e, self')"
    by (simp add: query_single_miss)
next
  assume a: "(cache self \<longrightarrow> response_cache self qry = None) \<and>
      (\<forall>k messages n. create w k messages n = Inl e)"
  then have "fst (chat w (user_message qry) 1 self) = Inl e"
    by (simp add: chat_raises)
  with a show "fst (query w qry 1 self) = Inl e"
    by (auto simp: query_single_miss split: prod.splits sum.splits)
qed

text \<open>
  Claim C7. With the cache enabled, once a call of \<^verbatim>\<open>query\<close> has returned a result,
  full or partial, a second call with the same prompt and the same number of responses
  returns that very result and leaves the client as it was, whatever the transport would
  have answered: no request is sent.
\<close>

theorem cached_query_idempotent:
  assumes "cache self" and "query w qry count self = (Inr r, self1)"
  shows "query w' qry count self1 = (Inr r, self1) \<and>
         transport_calls (snd (query w' qry count self1)) = transport_calls self1"
proof -
  from query_stores [OF assms] have "query w' qry count self1 = (Inr r, self1)"
    by (simp add: query_hit)
  then show ?thesis by simp
qed

text \<open>
  Claim C10. The cache is keyed by the prompt alone. With the cache enabled, once a call
  for \<open>n1\<close> responses has returned a result, a call with the same prompt for another
  number \<open>n2\<close> returns that result and sends no request; its shape is the one of the
  first call, a single response exactly when \<open>n1\<close> was 1 and the first call was not
  itself answered by the cache, and so is its number of choices.
\<close>

theorem cache_ignores_count:
  assumes "cache self" and "query w qry n1 self = (Inr r, self1)" and "n2 \<noteq> n1"
  shows "query w' qry n2 self1 = (Inr r, self1) \<and>
         transport_calls (snd (query w' qry n2 self1)) = transport_calls self1 \<and>
         (response_cache self qry = None \<longrightarrow> ((\<exists>res. r = Single res) \<longleftrightarrow> n1 = 1))"
proof -
  from query_stores [OF assms(1,2)] have "query w' qry n2 self1 = (Inr r, self1)"
    by (simp add: query_hit)
  moreover have "(\<exists>res. r = Single res) \<longleftrightarrow> n1 = 1" if "response_cache self qry = None"
    using that assms(2) by (intro query_miss_shape [of self qry w n1 r self1]) simp_all
  ultimately show ?thesis by simp
qed

section \<open>Errors and the cache at concrete requests\<close>


lemma failing_chat_single:
  "chat failing_world (user_message ''sort [3,1,2]'') 1 (new_client False) =
     (Inl OpenAIError, (new_client False)\<lparr>transport_calls := 6\<rparr>)"
  by (simp add: chat_def max_tries_def eval_nat_numeral chat_target_def failing_world_def
        new_client_def Let_def)

theorem query_error_propagation_witness:
  "(1::int) < 3 \<and> \<not> cache (new_client False) \<and>
   (\<forall>k messages n. create failing_world k messages n = Inl OpenAIError) \<and>
   (\<exists>r self'. query failing_world ''sort [3,1,2]'' 3 (new_client False) = (Inr r, self')) \<and>
   fst (query failing_world ''sort [3,1,2]'' 3 (new_client False)) = Inr (Multi []) \<and>
   chat failing_world (user_message ''sort [3,1,2]'') 1 (new_client False) =
     (Inl OpenAIError, (new_client False)\<lparr>transport_calls := 6\<rparr>) \<and>
   query failing_world ''sort [3,1,2]'' 1 (new_client False) =
     (Inl OpenAIError, (new_client False)\<lparr>transport_calls := 6\<rparr>) \<and>
   fst (query failing_world ''sort [3,1,2]'' 1 (new_client False)) = Inl OpenAIError"
proof -
  have c: "(1::int) < 3" by simp
  have nc: "\<not> cache (new_client False)" by (simp add: new_client_def)
  have f: "\<forall>k messages n. create failing_world k messages n = Inl OpenAIError"
    by (simp add: failing_world_def)
  then have i: "\<forall>k messages n. isl (create failing_world k messages n)"
    by simp
  from query_error_propagation
         [of 3 failing_world "''sort [3,1,2]''" "new_client False" OpenAIError
             "(new_client False)\<lparr>transport_calls := 6\<rparr>"]
       c nc f i failing_chat_single
  show ?thesis by blast
qed

lemma failing_query_degraded:
  "fst (query failing_world ''sort [3,1,2]'' 3 (new_client True)) = Inr (Multi [])"
proof -
  have "\<forall>k messages n. isl (create failing_world k messages n)"
    by (simp add: failing_world_def)
  then have "response (fst (query_loop failing_world ''sort [3,1,2]'' (init_locals 3, new_client True)))
               = response (init_locals 3)"
    by (simp add: query_loop_keeps_response)
  moreover have "response_cache (new_client True) ''sort [3,1,2]'' = None"
    by (simp add: new_client_def)
  ultimately show ?thesis
    by (simp add: query_multi_miss init_locals_def)
qed

theorem cached_query_idempotent_witness:
  "cache (new_client True) \<and>
   fst (query failing_world ''sort [3,1,2]'' 3 (new_client True)) = Inr (Multi []) \<and>
   query (stub_world OpenAIError (\<lambda>k. False)) ''sort [3,1,2]'' 3
      (snd (query failing_world ''sort [3,1,2]'' 3 (new_client True)))
     = (Inr (Multi []), snd (query failing_world ''sort [3,1,2]'' 3 (new_client True)))"
proof -
  have c: "cache (new_client True)" by (simp add: new_client_def)
  have q: "query failing_world ''sort [3,1,2]'' 3 (new_client True)
             = (Inr (Multi []), snd (query failing_world ''sort [3,1,2]'' 3 (new_client True)))"
    using failing_query_degraded by (metis prod.collapse)
  from cached_query_idempotent [OF c q, of "stub_world OpenAIError (\<lambda>k. False)"]
       c failing_query_degraded
  show ?thesis by blast
qed

lemma stub_query_single:
  "fst (query (stub_world OpenAIError (\<lambda>k. False)) ''sort [3,1,2]'' 1 (new_client True))
     = Inr (Single (stub_completion 1))"
proof -
  have "fst (chat (stub_world OpenAIError (\<lambda>k. False)) (user_message ''sort [3,1,2]'') 1
               (new_client True)) = Inr (stub_completion 1)"
    by (rule stub_chat_returns) simp
  moreover have "response_cache (new_client True) ''sort [3,1,2]'' = None"
    by (simp add: new_client_def)
  ultimately show ?thesis
    by (auto simp: query_single_miss split: prod.splits sum.splits)
qed

theorem cache_ignores_count_witness:
  "cache (new_client True) \<and> (5::int) \<noteq> 1 \<and>
   response_cache (new_client True) ''sort [3,1,2]'' = None \<and>
   fst (query (stub_world OpenAIError (\<lambda>k. False)) ''sort [3,1,2]'' 1 (new_client True))
     = Inr (Single (stub_completion 1)) \<and>
   query (stub_world OpenAIError (\<lambda>k. False)) ''sort [3,1,2]'' 5
      (snd (query (stub_world OpenAIError (\<lambda>k. False)) ''sort [3,1,2]'' 1 (new_client True)))
     = (Inr (Single (stub_completion 1)),
        snd (query (stub_world OpenAIError (\<lambda>k. False)) ''sort [3,1,2]'' 1 (new_client True))) \<and>
   num_choices (Single (stub_completion 1)) = 1"
proof -
  let ?w = "stub_world OpenAIError (\<lambda>k. False)"
  have c: "cache (new_client True)" by (simp add: new_client_def)
  have m: "response_cache (new_client True) ''sort [3,1,2]'' = None"
    by (simp add: new_client_def)
  have n: "(5::int) \<noteq> 1" by simp
  have q: "query ?w ''sort [3,1,2]'' 1 (new_client True)
             = (Inr (Single (stub_completion 1)), snd (query ?w ''sort [3,1,2]'' 1 (new_client True)))"
    using stub_query_single by (metis prod.collapse)
  have k: "num_choices (Single (stub_completion 1)) = 1"
    by (simp add: stub_completion_def)
  from cache_ignores_count [OF c q n, of ?w] c m n stub_query_single k
  show ?thesis by blast
qed

end
